theory Spec2Isabelle
  imports Complex_Main "HOL-Library.AList" "HOL-Library.Log_Nat"
begin

section \<open>Python values used by bake\_vertex\_colors.py\<close>

text \<open>
  The script is Python 3. Its exceptions are the built-in ones: the source defines no
  exception class of its own, has no \<^verbatim>\<open>try\<close> and no \<^verbatim>\<open>raise\<close>. Every
  function of the model returns \<open>error + 'a\<close>, with \<open>Inl\<close> for the exception that
  leaves the function.
\<close>

datatype error =
    ValueError
  | IndexError
  | AssertionError
  | OverflowError
  | TypeError
  | ZeroDivisionError
  | FileNotFoundError
  | EOFError
  | SystemExit int

definition sbind :: "error + 'a \<Rightarrow> ('a \<Rightarrow> error + 'b) \<Rightarrow> error + 'b" where
  "sbind m f = (case m of Inl e \<Rightarrow> Inl e | Inr a \<Rightarrow> f a)"

definition subscript :: "'a list \<Rightarrow> nat \<Rightarrow> error + 'a" where
  \<comment> \<open>\<^verbatim>\<open>xs[i]\<close> for a literal index \<open>i \<ge> 0\<close>\<close>
  "subscript xs i = (if i < length xs then Inr (xs ! i) else Inl IndexError)"

subsection \<open>Strings\<close>

text \<open>
  A Python \<^verbatim>\<open>str\<close> is a sequence of code points. The model covers the code points
  0..255, one \<open>char\<close> each. \<^verbatim>\<open>str.isspace\<close> holds there for 9..13, 28..32, 133 and 160;
  \<^verbatim>\<open>str.lower\<close> moves A..Z and the upper-case letters 192..222 (but 215) by 32.
\<close>

definition py_isspace :: "char \<Rightarrow> bool" where
  "py_isspace c = (let n = (of_char c :: nat) in
     (9 \<le> n \<and> n \<le> 13) \<or> (28 \<le> n \<and> n \<le> 32) \<or> n = 133 \<or> n = 160)"

definition lower_char :: "char \<Rightarrow> char" where
  "lower_char c = (let n = (of_char c :: nat) in
     if (65 \<le> n \<and> n \<le> 90) \<or> (192 \<le> n \<and> n \<le> 222 \<and> n \<noteq> 215)
     then char_of (n + 32) else c)"

definition lower :: "string \<Rightarrow> string" where
  "lower s = map lower_char s"

definition strip :: "string \<Rightarrow> string" where
  "strip s = rev (dropWhile py_isspace (rev (dropWhile py_isspace s)))"

definition startswith :: "string \<Rightarrow> string \<Rightarrow> bool" where
  "startswith s p = (take (length p) s = p)"

text \<open>\<^verbatim>\<open>s.split()\<close>: the maximal runs of non-whitespace, in order.\<close>

function split :: "string \<Rightarrow> string list" where
  "split s =
     (case dropWhile py_isspace s of
        [] \<Rightarrow> []
      | c # cs \<Rightarrow>
          (c # takeWhile (\<lambda>a. \<not> py_isspace a) cs) #
            split (dropWhile (\<lambda>a. \<not> py_isspace a) cs))"
  by pat_completeness auto
termination
proof (relation "measure length")
  show "wf (measure length)" by simp
next
  fix s :: string and c cs
  assume a: "dropWhile py_isspace s = c # cs"
  have "length (dropWhile (\<lambda>a. \<not> py_isspace a) cs) \<le> length cs"
    by (rule length_dropWhile_le)
  moreover have "length (c # cs) \<le> length s"
    using length_dropWhile_le [of py_isspace s] a by simp
  ultimately show "(dropWhile (\<lambda>a. \<not> py_isspace a) cs, s) \<in> measure length"
    by simp
qed

declare split.simps [simp del]

text \<open>
  \<^verbatim>\<open>s.split(None, 1)\<close>: the first token, and the rest of the string after the
  whitespace that follows it, if something is left there. The rest keeps its own
  trailing whitespace.
\<close>

definition split1 :: "string \<Rightarrow> string list" where
  "split1 s =
     (case dropWhile py_isspace s of
        [] \<Rightarrow> []
      | c # cs \<Rightarrow>
          (let tok = c # takeWhile (\<lambda>a. \<not> py_isspace a) cs;
               rest = dropWhile py_isspace (dropWhile (\<lambda>a. \<not> py_isspace a) cs)
           in if rest = [] then [tok] else [tok, rest]))"

text \<open>\<^verbatim>\<open>s.split("/")\<close>: the pieces between separators, empty ones included.\<close>

fun split_on :: "char \<Rightarrow> string \<Rightarrow> string list" where
  "split_on d [] = [[]]"
| "split_on d (c # cs) =
     (if c = d then [] # split_on d cs
      else (c # hd (split_on d cs)) # tl (split_on d cs))"

subsection \<open>Reading a text file line by line\<close>

text \<open>
  \<^verbatim>\<open>open(path, "r")\<close> reads with universal newlines: CR LF and a lone CR arrive as
  LF. Iterating over the file yields the lines, each with its LF, the last one without
  when the file does not end in one.
\<close>

abbreviation LF :: char where "LF \<equiv> CHR 0x0A"
abbreviation CR :: char where "CR \<equiv> CHR 0x0D"

fun universal_newlines :: "string \<Rightarrow> string" where
  "universal_newlines [] = []"
| "universal_newlines [c] = (if c = CR then [LF] else [c])"
| "universal_newlines (c # d # cs) =
     (if c = CR \<and> d = LF then LF # universal_newlines cs
      else if c = CR then LF # universal_newlines (d # cs)
      else c # universal_newlines (d # cs))"

fun readlines :: "string \<Rightarrow> string list" where
  "readlines [] = []"
| "readlines (c # cs) =
     (if c = LF then [LF] # readlines cs
      else (case readlines cs of [] \<Rightarrow> [[c]] | l # ls \<Rightarrow> (c # l) # ls))"

definition file_lines :: "string \<Rightarrow> string list" where
  "file_lines content = readlines (universal_newlines content)"

subsection \<open>Integers from text\<close>

text \<open>
  \<^verbatim>\<open>int(s)\<close> for a string: whitespace (9..13, 32, and the non-ASCII 133 and 160,
  which CPython first turns into spaces) is removed at both ends, then a sign may come,
  then decimal digits with single underscores between them. More than 4300 digits are
  refused (the default of \<^verbatim>\<open>sys.int_max_str_digits\<close>). Everything else is a
  ValueError. The result is unbounded.
\<close>

definition num_isspace :: "char \<Rightarrow> bool" where
  "num_isspace c = (let n = (of_char c :: nat) in
     (9 \<le> n \<and> n \<le> 13) \<or> n = 32 \<or> n = 133 \<or> n = 160)"

definition num_strip :: "string \<Rightarrow> string" where
  "num_strip s = rev (dropWhile num_isspace (rev (dropWhile num_isspace s)))"

definition is_digit :: "char \<Rightarrow> bool" where
  "is_digit c = (let n = (of_char c :: nat) in 48 \<le> n \<and> n \<le> 57)"

definition digit_val :: "char \<Rightarrow> int" where
  "digit_val c = of_char c - 48"

definition digits_val :: "string \<Rightarrow> int" where
  "digits_val ds = foldl (\<lambda>a c. 10 * a + digit_val c) 0 ds"

fun take_sign :: "string \<Rightarrow> bool \<times> string" where
  "take_sign [] = (False, [])"
| "take_sign (c # cs) =
     (if c = CHR ''-'' then (True, cs) else if c = CHR ''+'' then (False, cs)
      else (False, c # cs))"

text \<open>Digits with single underscores between them; the digits, when the shape is right.\<close>

fun digit_groups :: "string \<Rightarrow> string option" where
  "digit_groups [] = None"
| "digit_groups [c] = (if is_digit c then Some [c] else None)"
| "digit_groups (c # d # cs) =
     (if \<not> is_digit c then None
      else if d = CHR ''_'' then map_option (\<lambda>r. c # r) (digit_groups cs)
      else map_option (\<lambda>r. c # r) (digit_groups (d # cs)))"

definition py_int :: "string \<Rightarrow> error + int" where
  "py_int s =
     (let (neg, body) = take_sign (num_strip s) in
      case digit_groups body of
        None \<Rightarrow> Inl ValueError
      | Some ds \<Rightarrow>
          if length ds > 4300 then Inl ValueError
          else Inr (if neg then - digits_val ds else digits_val ds))"

subsection \<open>Floats\<close>

text \<open>
  A Python \<^verbatim>\<open>float\<close> is an IEEE 754 binary64 number. \<open>Finite q\<close> stands for the
  binary64 number whose value is the rational \<open>q\<close>; the two zeros are one value here
  (no operation of the script tells them apart). Every arithmetic operation computes
  the exact rational result and rounds it to the nearest binary64 number, ties to the
  even significand (\<open>round64\<close>); a result beyond the largest finite number is an
  infinity.
\<close>

datatype pyfloat = Finite rat | PosInf | NegInf | NaN

definition pow2 :: "int \<Rightarrow> rat" where
  "pow2 k = (if 0 \<le> k then 2 ^ nat k else 1 / 2 ^ nat (- k))"

definition pow10 :: "int \<Rightarrow> rat" where
  "pow10 k = (if 0 \<le> k then 10 ^ nat k else 1 / 10 ^ nat (- k))"

definition round_half_even :: "rat \<Rightarrow> int" where
  "round_half_even q =
     (let f = \<lfloor>q\<rfloor>; d = q - of_int f in
      if d < 1 / 2 then f else if 1 / 2 < d then f + 1
      else if even f then f else f + 1)"

text \<open>\<open>ilog2 q\<close> is the exponent of the binade of \<open>q > 0\<close>: \<open>2 ^ ilog2 q \<le> q < 2 ^ (ilog2 q + 1)\<close>.\<close>

definition ilog2 :: "rat \<Rightarrow> int" where
  "ilog2 q =
     (let (a, b) = quotient_of q; k = bitlen a - bitlen b in
      if pow2 k \<le> q then k else k - 1)"

text \<open>
  Rounding a rational to binary64: the significand has 53 bits, so the unit in the last
  place of the binade \<open>e\<close> is \<open>2 ^ (e - 52)\<close>, and no less than \<open>2 ^ - 1074\<close>
  (the subnormal numbers). The largest finite number is \<open>(2 ^ 53 - 1) * 2 ^ 971\<close>:
  a rounded result that needs a larger unit, or the significand \<open>2 ^ 53\<close> at the
  unit \<open>2 ^ 971\<close>, is an infinity.
\<close>

definition round64 :: "rat \<Rightarrow> pyfloat" where
  "round64 q =
     (if q = 0 then Finite 0
      else
        (let p = max (ilog2 \<bar>q\<bar> - 52) (- 1074);
             n = round_half_even (\<bar>q\<bar> / pow2 p)
         in if 971 < p \<or> (p = 971 \<and> 2 ^ 53 \<le> n) then (if 0 < q then PosInf else NegInf)
            else Finite ((if 0 < q then 1 else - 1) * of_int n * pow2 p)))"


text \<open>
  \<^verbatim>\<open>float(s)\<close> for a string. An underscore must stand between two digits. The
  literal is a sign, then digits with at most one point among them (one digit at
  least), then an exponent part when it is complete; or a sign and one of inf,
  infinity, nan in any case. Anything left over is a ValueError. Too large a value is
  an infinity, not an error.
\<close>

fun float_underscores :: "char \<Rightarrow> string \<Rightarrow> string option" where
  "float_underscores prev [] = (if prev = CHR ''_'' then None else Some [])"
| "float_underscores prev (c # cs) =
     (if c = CHR ''_'' then (if is_digit prev then float_underscores c cs else None)
      else if prev = CHR ''_'' \<and> \<not> is_digit c then None
      else map_option (\<lambda>r. c # r) (float_underscores c cs))"

definition take_exponent :: "string \<Rightarrow> int \<times> string" where
  "take_exponent r =
     (case r of
        [] \<Rightarrow> (0, [])
      | c # cs \<Rightarrow>
          if c = CHR ''e'' \<or> c = CHR ''E'' then
            (let (neg, t) = take_sign cs; ds = takeWhile is_digit t in
             if ds = [] then (0, r)
             else (if neg then - digits_val ds else digits_val ds,
                   dropWhile is_digit t))
          else (0, r))"

definition inf_or_nan :: "string \<Rightarrow> error + pyfloat" where
  "inf_or_nan s =
     (let (neg, r) = take_sign s; w = lower r in
      if w = ''inf'' \<or> w = ''infinity'' then Inr (if neg then NegInf else PosInf)
      else if w = ''nan'' then Inr NaN
      else Inl ValueError)"

definition float_literal :: "string \<Rightarrow> error + pyfloat" where
  "float_literal s =
     (let (neg, r) = take_sign s;
          ip = takeWhile is_digit r;
          r1 = dropWhile is_digit r;
          (fp, r2) = (case r1 of
                        [] \<Rightarrow> ([], [])
                      | c # cs \<Rightarrow>
                          if c = CHR ''.'' then (takeWhile is_digit cs, dropWhile is_digit cs)
                          else ([], r1))
      in if ip = [] \<and> fp = [] then inf_or_nan s
         else
           (let (ex, r3) = take_exponent r2;
                m = of_int (digits_val (ip @ fp)) * pow10 (ex - int (length fp))
            in if r3 \<noteq> [] then Inl ValueError
               else Inr (round64 (if neg then - m else m))))"

definition py_float :: "string \<Rightarrow> error + pyfloat" where
  "py_float s =
     (case float_underscores (CHR 0x00) s of
        None \<Rightarrow> Inl ValueError
      | Some t \<Rightarrow> float_literal (num_strip t))"

section \<open>The mesh parser: \<^verbatim>\<open>parse_obj\<close>\<close>

datatype Position = Position (pos_x: pyfloat) (pos_y: pyfloat) (pos_z: pyfloat)

datatype TexCoord = TexCoord (tex_u: pyfloat) (tex_v: pyfloat)

datatype Normal = Normal (nrm_x: pyfloat) (nrm_y: pyfloat) (nrm_z: pyfloat)

record FaceVertex =
  position_index :: "int option"
  texcoord_index :: "int option"
  normal_index :: "int option"

record Face =
  vertices :: "FaceVertex list"
  material :: string
  line :: string

text \<open>
  An element of \<^verbatim>\<open>out_lines\<close> is a pair of a kind and an index (\<open>Tag\<close>) or the
  line itself (\<open>Verbatim\<close>).
\<close>

datatype out_line = Tag string nat | Verbatim string

record OBJ =
  positions :: "Position list"
  texcoords :: "TexCoord list"
  normals :: "Normal list"
  faces :: "Face list"
  out_lines :: "out_line list"
  current_material :: string

definition new_OBJ :: OBJ where
  "new_OBJ = \<lparr>positions = [], texcoords = [], normals = [], faces = [], out_lines = [],
     current_material = []\<rparr>"

definition float_at :: "string list \<Rightarrow> nat \<Rightarrow> error + pyfloat" where
  \<comment> \<open>\<^verbatim>\<open>float(parts[i])\<close>\<close>
  "float_at parts i = sbind (subscript parts i) py_float"

definition index_part :: "bool \<Rightarrow> string list \<Rightarrow> nat \<Rightarrow> error + int option" where
  \<comment> \<open>\<^verbatim>\<open>int(parts[i]) - 1\<close> under its guard; \<open>None\<close> when the guard fails\<close>
  "index_part long_enough parts i =
     (if long_enough \<and> parts ! i \<noteq> [] then sbind (py_int (parts ! i)) (\<lambda>n. Inr (Some (n - 1)))
      else Inr None)"

definition parse_face_vertex :: "string \<Rightarrow> error + FaceVertex" where
  "parse_face_vertex vert =
     (let parts = split_on (CHR ''/'') vert in
      sbind (index_part (1 \<le> length parts) parts 0) (\<lambda>v_idx.
      sbind (index_part (2 \<le> length parts) parts 1) (\<lambda>vt_idx.
      sbind (index_part (length parts = 3) parts 2) (\<lambda>vn_idx.
        Inr \<lparr>position_index = v_idx, texcoord_index = vt_idx, normal_index = vn_idx\<rparr>))))"

fun parse_face_vertices :: "string list \<Rightarrow> error + FaceVertex list" where
  "parse_face_vertices [] = Inr []"
| "parse_face_vertices (vert # verts) =
     sbind (parse_face_vertex vert) (\<lambda>fv.
     sbind (parse_face_vertices verts) (\<lambda>fvs. Inr (fv # fvs)))"

text \<open>
  One turn of the loop of \<^verbatim>\<open>parse_obj\<close>, on the line \<open>raw\<close>: the bodies of the
  branches first, then the chain of tests that selects one.
\<close>

definition position_of :: "string list \<Rightarrow> error + Position" where
  \<comment> \<open>\<^verbatim>\<open>Position(float(parts[1]), float(parts[2]), float(parts[3]))\<close>\<close>
  "position_of parts =
     sbind (float_at parts 1) (\<lambda>a.
     sbind (float_at parts 2) (\<lambda>b.
     sbind (float_at parts 3) (\<lambda>c. Inr (Position a b c))))"

definition texcoord_of :: "string list \<Rightarrow> error + TexCoord" where
  "texcoord_of parts =
     sbind (float_at parts 1) (\<lambda>a.
     sbind (float_at parts 2) (\<lambda>b. Inr (TexCoord a b)))"

definition normal_of :: "string list \<Rightarrow> error + Normal" where
  "normal_of parts =
     sbind (float_at parts 1) (\<lambda>a.
     sbind (float_at parts 2) (\<lambda>b.
     sbind (float_at parts 3) (\<lambda>c. Inr (Normal a b c))))"

definition add_position :: "OBJ \<Rightarrow> string \<Rightarrow> error + OBJ" where
  "add_position obj line_strip =
     sbind (position_of (split line_strip)) (\<lambda>pos.
       Inr (obj\<lparr>positions := positions obj @ [pos],
                out_lines := out_lines obj @ [Tag ''v'' (length (positions obj @ [pos]) - 1)]\<rparr>))"

definition add_texcoord :: "OBJ \<Rightarrow> string \<Rightarrow> error + OBJ" where
  "add_texcoord obj line_strip =
     sbind (texcoord_of (split line_strip)) (\<lambda>tex.
       Inr (obj\<lparr>texcoords := texcoords obj @ [tex],
                out_lines := out_lines obj @ [Tag ''vt'' (length (texcoords obj @ [tex]) - 1)]\<rparr>))"

definition add_normal :: "OBJ \<Rightarrow> string \<Rightarrow> error + OBJ" where
  "add_normal obj line_strip =
     sbind (normal_of (split line_strip)) (\<lambda>nrm.
       Inr (obj\<lparr>normals := normals obj @ [nrm],
                out_lines := out_lines obj @ [Tag ''vn'' (length (normals obj @ [nrm]) - 1)]\<rparr>))"

definition use_material :: "OBJ \<Rightarrow> string \<Rightarrow> string \<Rightarrow> error + OBJ" where
  "use_material obj raw line_strip =
     sbind (subscript (split1 line_strip) 1) (\<lambda>m.
       Inr (obj\<lparr>current_material := m, out_lines := out_lines obj @ [Verbatim raw]\<rparr>))"

definition add_face :: "OBJ \<Rightarrow> string \<Rightarrow> string \<Rightarrow> error + OBJ" where
  "add_face obj raw line_strip =
     sbind (parse_face_vertices (tl (split line_strip))) (\<lambda>face_vertices.
       Inr (obj\<lparr>faces := faces obj @
                  [\<lparr>vertices = face_vertices, material = current_material obj,
                    line = line_strip\<rparr>],
                out_lines := out_lines obj @ [Verbatim raw]\<rparr>))"

definition pass_through :: "OBJ \<Rightarrow> string \<Rightarrow> error + OBJ" where
  "pass_through obj raw = Inr (obj\<lparr>out_lines := out_lines obj @ [Verbatim raw]\<rparr>)"

definition parse_obj_line :: "OBJ \<Rightarrow> string \<Rightarrow> error + OBJ" where
  "parse_obj_line obj raw =
     (let line_strip = strip raw in
      if startswith raw ''v '' then add_position obj line_strip
      else if startswith raw ''vt '' then add_texcoord obj line_strip
      else if startswith raw ''vn '' then add_normal obj line_strip
      else if startswith (lower line_strip) ''usemtl'' then use_material obj raw line_strip
      else if startswith (lower line_strip) ''f '' then add_face obj raw line_strip
      else pass_through obj raw)"

fun parse_obj_lines :: "OBJ \<Rightarrow> string list \<Rightarrow> error + OBJ" where
  "parse_obj_lines obj [] = Inr obj"
| "parse_obj_lines obj (raw # rest) =
     (case parse_obj_line obj raw of
        Inl e \<Rightarrow> Inl e
      | Inr obj' \<Rightarrow> parse_obj_lines obj' rest)"

text \<open>\<^verbatim>\<open>parse_obj\<close> on the content of the file it opens.\<close>

definition parse_obj_text :: "string \<Rightarrow> error + OBJ" where
  "parse_obj_text content = parse_obj_lines new_OBJ (file_lines content)"

text \<open>
  The files of a run: a path has a content or there is no such file. Opening a path
  that is not there raises FileNotFoundError.
\<close>

type_synonym files = "string \<Rightarrow> string option"

definition open_read :: "files \<Rightarrow> string \<Rightarrow> error + string" where
  "open_read fs path = (case fs path of None \<Rightarrow> Inl FileNotFoundError | Some content \<Rightarrow> Inr content)"

definition parse_obj :: "files \<Rightarrow> string \<Rightarrow> error + OBJ" where
  "parse_obj fs file_path = sbind (open_read fs file_path) parse_obj_text"

section \<open>The material library parser: \<^verbatim>\<open>parse_mtl\<close>\<close>

record Material =
  name :: string
  ambient :: "pyfloat list option"
  diffuse :: "pyfloat list option"
  specular :: "pyfloat list option"
  shininess :: "pyfloat option"
  alpha :: "pyfloat option"
  illum :: "int option"
  map_Ka :: "string option"
  map_Kd :: "string option"
  map_Ks :: "string option"
  map_Ns :: "string option"
  map_d :: "string option"
  map_bump :: "string option"
  extra_props :: "(string \<times> string) list"

text \<open>
  \<^verbatim>\<open>current_material\<close> is the object last appended to \<^verbatim>\<open>materials\<close>, shared
  with the list: an assignment to one of its fields changes the list's element. The
  model keeps its index in the list. The dictionary \<^verbatim>\<open>extra_props\<close> is an
  association list in insertion order.
\<close>

record MTL =
  materials :: "Material list"
  mtl_out_lines :: "string list"
  mtl_current_material :: "nat option"

definition new_MTL :: MTL where
  "new_MTL = \<lparr>materials = [], mtl_out_lines = [], mtl_current_material = None\<rparr>"

definition new_Material :: "string \<Rightarrow> Material" where
  "new_Material nm = \<lparr>name = nm, ambient = None, diffuse = None, specular = None,
     shininess = None, alpha = None, illum = None, map_Ka = None, map_Kd = None,
     map_Ks = None, map_Ns = None, map_d = None, map_bump = None, extra_props = []\<rparr>"

fun float_list :: "string list \<Rightarrow> error + pyfloat list" where
  \<comment> \<open>\<^verbatim>\<open>list(map(float, tokens))\<close>\<close>
  "float_list [] = Inr []"
| "float_list (t # ts) =
     sbind (py_float t) (\<lambda>a. sbind (float_list ts) (\<lambda>r. Inr (a # r)))"

definition set_field :: "MTL \<Rightarrow> nat \<Rightarrow> (Material \<Rightarrow> Material) \<Rightarrow> MTL" where
  "set_field mtl i f = mtl\<lparr>materials := (materials mtl)[i := f (materials mtl ! i)]\<rparr>"

text \<open>
  The chain of \<^verbatim>\<open>if key == ...\<close>: the assignment to a field of the current material
  that the key selects, once the value has been converted. The current material is the
  list's element at index \<open>i\<close>.
\<close>

definition property_update :: "string \<Rightarrow> string \<Rightarrow> error + (Material \<Rightarrow> Material)" where
  "property_update key val =
     (if key = ''ka'' then
        sbind (float_list (split val)) (\<lambda>fs. Inr (\<lambda>m. m\<lparr>ambient := Some fs\<rparr>))
      else if key = ''kd'' then
        sbind (float_list (split val)) (\<lambda>fs. Inr (\<lambda>m. m\<lparr>diffuse := Some fs\<rparr>))
      else if key = ''ks'' then
        sbind (float_list (split val)) (\<lambda>fs. Inr (\<lambda>m. m\<lparr>specular := Some fs\<rparr>))
      else if key = ''ns'' then
        sbind (py_float val) (\<lambda>a. Inr (\<lambda>m. m\<lparr>shininess := Some a\<rparr>))
      else if key = ''d'' then
        sbind (py_float val) (\<lambda>a. Inr (\<lambda>m. m\<lparr>alpha := Some a\<rparr>))
      else if key = ''illum'' then
        sbind (py_int val) (\<lambda>n. Inr (\<lambda>m. m\<lparr>illum := Some n\<rparr>))
      else if key = ''map_ka'' then Inr (\<lambda>m. m\<lparr>map_Ka := Some val\<rparr>)
      else if key = ''map_kd'' then Inr (\<lambda>m. m\<lparr>map_Kd := Some val\<rparr>)
      else if key = ''map_ks'' then Inr (\<lambda>m. m\<lparr>map_Ks := Some val\<rparr>)
      else if key = ''map_ns'' then Inr (\<lambda>m. m\<lparr>map_Ns := Some val\<rparr>)
      else if key = ''map_d'' then Inr (\<lambda>m. m\<lparr>map_d := Some val\<rparr>)
      else if key = ''map_bump'' \<or> key = ''bump'' then Inr (\<lambda>m. m\<lparr>map_bump := Some val\<rparr>)
      else Inr (\<lambda>m. m\<lparr>extra_props := AList.update key val (extra_props m)\<rparr>))"

definition set_property :: "MTL \<Rightarrow> nat \<Rightarrow> string \<Rightarrow> string \<Rightarrow> error + MTL" where
  "set_property mtl i key val =
     sbind (property_update key val) (\<lambda>f. Inr (set_field mtl i f))"

text \<open>
  One turn of the loop of \<^verbatim>\<open>parse_mtl\<close>. \<^verbatim>\<open>assert value\<close> fails on
  \<^verbatim>\<open>None\<close> and on the empty string.
\<close>

definition parse_mtl_line :: "MTL \<Rightarrow> string \<Rightarrow> error + MTL" where
  "parse_mtl_line mtl raw =
     (let line_strip = strip raw in
      if line_strip = [] \<or> startswith line_strip ''#'' then
        Inr (mtl\<lparr>mtl_out_lines := mtl_out_lines mtl @ [raw]\<rparr>)
      else
        (let parts = split1 line_strip in
         sbind (subscript parts 0) (\<lambda>k.
           (let key = lower k;
                val = (if 1 < length parts then Some (parts ! 1) else None)
            in case val of
                 None \<Rightarrow> Inl AssertionError
               | Some v \<Rightarrow>
                   if v = [] then Inl AssertionError
                   else if key = ''newmtl'' then
                     Inr (mtl\<lparr>materials := materials mtl @ [new_Material v],
                              mtl_current_material := Some (length (materials mtl)),
                              mtl_out_lines := mtl_out_lines mtl @ [raw]\<rparr>)
                   else
                     (case mtl_current_material mtl of
                        Some i \<Rightarrow>
                          sbind (set_property mtl i key v) (\<lambda>mtl'.
                            Inr (mtl'\<lparr>mtl_out_lines := mtl_out_lines mtl' @ [raw]\<rparr>))
                      | None \<Rightarrow> Inr (mtl\<lparr>mtl_out_lines := mtl_out_lines mtl @ [raw]\<rparr>))))))"

fun parse_mtl_lines :: "MTL \<Rightarrow> string list \<Rightarrow> error + MTL" where
  "parse_mtl_lines mtl [] = Inr mtl"
| "parse_mtl_lines mtl (raw # rest) =
     (case parse_mtl_line mtl raw of
        Inl e \<Rightarrow> Inl e
      | Inr mtl' \<Rightarrow> parse_mtl_lines mtl' rest)"

definition parse_mtl_text :: "string \<Rightarrow> error + MTL" where
  "parse_mtl_text content = parse_mtl_lines new_MTL (file_lines content)"

definition parse_mtl :: "files \<Rightarrow> string \<Rightarrow> error + MTL" where
  "parse_mtl fs file_path = sbind (open_read fs file_path) parse_mtl_text"

section \<open>The second reader of material libraries: \<^verbatim>\<open>parse_mtl_file\<close>\<close>

text \<open>
  The state of its loop is the dictionary \<^verbatim>\<open>mat_to_tex\<close> and
  \<^verbatim>\<open>current_mat\<close>, which is \<^verbatim>\<open>None\<close> or a string; the test
  \<^verbatim>\<open>current_mat and ...\<close> fails on \<^verbatim>\<open>None\<close> and on the empty string.
\<close>

definition parse_mtl_file_line ::
  "(string \<times> string) list \<times> string option \<Rightarrow> string \<Rightarrow>
     error + (string \<times> string) list \<times> string option" where
  "parse_mtl_file_line st raw =
     (let stripped = strip raw; mat_to_tex = fst st; current_mat = snd st in
      if startswith (lower stripped) ''newmtl'' then
        sbind (subscript (split1 stripped) 1) (\<lambda>m. Inr (mat_to_tex, Some m))
      else if current_mat \<noteq> None \<and> current_mat \<noteq> Some [] \<and> startswith (lower stripped) ''map_kd'' then
        sbind (subscript (split1 stripped) 1) (\<lambda>tex.
          Inr (AList.update (the current_mat) tex mat_to_tex, current_mat))
      else Inr st)"

fun parse_mtl_file_lines ::
  "(string \<times> string) list \<times> string option \<Rightarrow> string list \<Rightarrow>
     error + (string \<times> string) list \<times> string option" where
  "parse_mtl_file_lines st [] = Inr st"
| "parse_mtl_file_lines st (raw # rest) =
     (case parse_mtl_file_line st raw of
        Inl e \<Rightarrow> Inl e
      | Inr st' \<Rightarrow> parse_mtl_file_lines st' rest)"

definition parse_mtl_file_text :: "string \<Rightarrow> error + (string \<times> string) list" where
  "parse_mtl_file_text content =
     sbind (parse_mtl_file_lines ([], None) (file_lines content)) (\<lambda>st. Inr (fst st))"

text \<open>
  \<^verbatim>\<open>parse_mtl_file\<close> itself: a path that is not a file ends the process with
  \<^verbatim>\<open>sys.exit(1)\<close>.
\<close>

definition parse_mtl_file :: "files \<Rightarrow> string \<Rightarrow> error + (string \<times> string) list" where
  "parse_mtl_file fs mtl_path =
     (case fs mtl_path of
        None \<Rightarrow> Inl (SystemExit 1)
      | Some content \<Rightarrow> parse_mtl_file_text content)"

section \<open>The texture sampler: \<^verbatim>\<open>sample_texture\<close>\<close>

subsection \<open>The float operations it uses\<close>








subsection \<open>The image\<close>







section \<open>The program: \<^verbatim>\<open>main\<close>\<close>

text \<open>
  \<^verbatim>\<open>os.path.splitext\<close> (POSIX): the extension starts at the last dot of the last
  path component, unless only dots come before it there.
\<close>

fun rfind :: "char \<Rightarrow> string \<Rightarrow> int" where
  "rfind c [] = - 1"
| "rfind c (d # ds) =
     (let k = rfind c ds in if 0 \<le> k then k + 1 else if d = c then 0 else - 1)"

definition splitext :: "string \<Rightarrow> string \<times> string" where
  "splitext p =
     (let sepIndex = rfind (CHR ''/'') p; dotIndex = rfind (CHR ''.'') p in
      if sepIndex < dotIndex \<and>
         list_ex (\<lambda>c. c \<noteq> CHR ''.'') (take (nat (dotIndex - (sepIndex + 1))) (drop (nat (sepIndex + 1)) p))
      then (take (nat dotIndex) p, drop (nat dotIndex) p)
      else (p, []))"

text \<open>
  The arguments as \<^verbatim>\<open>parse_args\<close> returns them, and what a run finds around it: the
  files, and the line that \<^verbatim>\<open>input\<close> reads, if there is one.
\<close>

record args =
  obj_in :: string
  mtl_arg :: "string option"
  out_arg :: "string option"

record world =
  files_of :: files
  stdin_line :: "string option"

datatype message =
    Warn_exists string
  | Aborted
  | Done_wrote string

definition obj_out_of :: "args \<Rightarrow> string" where
  \<comment> \<open>\<^verbatim>\<open>args.out if args.out else splitext(args.obj_in)[0] + "_baked.obj"\<close>\<close>
  "obj_out_of a =
     (case out_arg a of
        Some p \<Rightarrow> if p \<noteq> [] then p else fst (splitext (obj_in a)) @ ''_baked.obj''
      | None \<Rightarrow> fst (splitext (obj_in a)) @ ''_baked.obj'')"

definition mtl_path_of :: "args \<Rightarrow> string" where
  "mtl_path_of a =
     (case mtl_arg a of
        Some p \<Rightarrow> if p \<noteq> [] then p else fst (splitext (obj_in a)) @ ''.mtl''
      | None \<Rightarrow> fst (splitext (obj_in a)) @ ''.mtl'')"

text \<open>\<^verbatim>\<open>ask_overwrite\<close>: what it prints, and whether it returns.\<close>

definition ask_overwrite :: "world \<Rightarrow> string \<Rightarrow> message list \<times> (error + unit)" where
  "ask_overwrite w path =
     (case stdin_line w of
        None \<Rightarrow> ([Warn_exists path], Inl EOFError)
      | Some answer \<Rightarrow>
          if lower (strip answer) \<noteq> ''y'' then ([Warn_exists path, Aborted], Inl (SystemExit 1))
          else ([Warn_exists path], Inr ()))"

text \<open>
  A run of \<^verbatim>\<open>main\<close> gives what it printed, how it ended, and the files after it.
  The source opens files for reading only, so the files after the run are the files
  before it.
\<close>

definition main :: "args \<Rightarrow> world \<Rightarrow> message list \<times> (error + unit) \<times> files" where
  "main a w =
     (let obj_out = obj_out_of a;
          asked = (if files_of w obj_out \<noteq> None then ask_overwrite w obj_out else ([], Inr ()))
      in case snd asked of
           Inl e \<Rightarrow> (fst asked, Inl e, files_of w)
         | Inr _ \<Rightarrow>
             (let mtl_path = mtl_path_of a in
              case parse_obj (files_of w) (obj_in a) of
                Inl e \<Rightarrow> (fst asked, Inl e, files_of w)
              | Inr obj \<Rightarrow>
                  (case parse_mtl (files_of w) mtl_path of
                     Inl e \<Rightarrow> (fst asked, Inl e, files_of w)
                   | Inr mtl \<Rightarrow> (fst asked @ [Done_wrote obj_out], Inr (), files_of w))))"

section \<open>Reference definitions for the properties\<close>

subsection \<open>Material scoping\<close>

text \<open>
  The material in force at each face line, read off the lines alone: the lines whose
  trimmed, lower-cased form starts with \<^verbatim>\<open>usemtl\<close> set it to the rest of the line
  after its first word, trimmed; the lines whose trimmed, lower-cased form starts with
  \<^verbatim>\<open>f\<close> and a space are the faces.
\<close>

definition is_usemtl_line :: "string \<Rightarrow> bool" where
  "is_usemtl_line raw = startswith (lower (strip raw)) ''usemtl''"

definition is_face_line :: "string \<Rightarrow> bool" where
  "is_face_line raw = startswith (lower (strip raw)) ''f ''"

definition rest_of_line :: "string \<Rightarrow> string" where
  "rest_of_line raw = strip (dropWhile (\<lambda>a. \<not> py_isspace a) (strip raw))"

fun scoped_materials :: "string \<Rightarrow> string list \<Rightarrow> string list" where
  "scoped_materials cur [] = []"
| "scoped_materials cur (raw # rest) =
     (if is_usemtl_line raw then scoped_materials (rest_of_line raw) rest
      else if is_face_line raw then cur # scoped_materials cur rest
      else scoped_materials cur rest)"

definition scoping_example :: string where
  "scoping_example = ''usemtl A'' @ [LF] @ ''f 1 2 3'' @ [LF] @ ''f 2 3 4'' @ [LF] @
     ''usemtl B'' @ [LF] @ ''f 1/1 3/2 4/3'' @ [LF]"

text \<open>
  The remainder of the line in the words of the claim: what follows the
  \<^verbatim>\<open>usemtl\<close> that the trimmed line starts with, trimmed. It is the rest after the
  first word where \<^verbatim>\<open>usemtl\<close> is the whole first word of the line.
\<close>

definition remainder_after_usemtl :: "string \<Rightarrow> string" where
  "remainder_after_usemtl raw = strip (drop (length ''usemtl'') (strip raw))"

definition usemtl_is_first_word :: "string \<Rightarrow> bool" where
  "usemtl_is_first_word raw = (lower (takeWhile (\<lambda>a. \<not> py_isspace a) (strip raw)) = ''usemtl'')"

definition joined_word_example :: string where
  "joined_word_example = ''usemtlfoo bar'' @ [LF] @ ''f 1 2 3'' @ [LF]"

subsection \<open>Example texts\<close>

definition bare_usemtl_example :: string where
  "bare_usemtl_example = ''v 0 0 0'' @ [LF] @ ''usemtl'' @ [LF] @ ''f 1 1 1'' @ [LF]"

definition missing_value_example :: string where
  "missing_value_example = ''newmtl A'' @ [LF] @ ''Kd 1 1 1'' @ [LF] @ ''map_Kd'' @ [LF]"

subsection \<open>Replaying the shadow line sequence\<close>

text \<open>
  Modelled from the spec: the mesh writer, which the source does not have
  (\<^verbatim>\<open>main\<close> parses the two files and writes nothing). The replay emits a verbatim
  record as stored and a tagged record from the entity it refers to. The spec leaves
  the text of a regenerated line open, so the three emitters are parameters;
  \<open>round_trips\<close> is the round trip of the claim for a given choice of them, and
  \<open>regenerable\<close> says of a line that the emitters return it for the entity parsed
  from it. \<open>extends\<close> is the order in which the arrays grow during a parse.
\<close>

definition replay_record ::
  "(Position \<Rightarrow> string) \<Rightarrow> (TexCoord \<Rightarrow> string) \<Rightarrow> (Normal \<Rightarrow> string) \<Rightarrow> OBJ \<Rightarrow> out_line \<Rightarrow> string" where
  "replay_record ep et en obj r =
     (case r of
        Verbatim s \<Rightarrow> s
      | Tag kind i \<Rightarrow>
          if kind = ''v'' \<and> i < length (positions obj) then ep (positions obj ! i)
          else if kind = ''vt'' \<and> i < length (texcoords obj) then et (texcoords obj ! i)
          else if kind = ''vn'' \<and> i < length (normals obj) then en (normals obj ! i)
          else [])"

definition replay ::
  "(Position \<Rightarrow> string) \<Rightarrow> (TexCoord \<Rightarrow> string) \<Rightarrow> (Normal \<Rightarrow> string) \<Rightarrow> OBJ \<Rightarrow> string" where
  "replay ep et en obj = concat (map (replay_record ep et en obj) (out_lines obj))"

definition round_trips ::
  "(Position \<Rightarrow> string) \<Rightarrow> (TexCoord \<Rightarrow> string) \<Rightarrow> (Normal \<Rightarrow> string) \<Rightarrow> string \<Rightarrow> bool" where
  "round_trips ep et en content =
     (case parse_obj_text content of Inl e \<Rightarrow> True | Inr obj \<Rightarrow> replay ep et en obj = content)"

definition regenerable ::
  "(Position \<Rightarrow> string) \<Rightarrow> (TexCoord \<Rightarrow> string) \<Rightarrow> (Normal \<Rightarrow> string) \<Rightarrow> string \<Rightarrow> bool" where
  "regenerable ep et en raw =
     (if startswith raw ''v '' then
        (case position_of (split (strip raw)) of Inl e \<Rightarrow> True | Inr pos \<Rightarrow> ep pos = raw)
      else if startswith raw ''vt '' then
        (case texcoord_of (split (strip raw)) of Inl e \<Rightarrow> True | Inr tex \<Rightarrow> et tex = raw)
      else if startswith raw ''vn '' then
        (case normal_of (split (strip raw)) of Inl e \<Rightarrow> True | Inr nrm \<Rightarrow> en nrm = raw)
      else True)"

definition extends :: "OBJ \<Rightarrow> OBJ \<Rightarrow> bool" where
  "extends obj obj' =
     ((\<exists>ps. positions obj' = positions obj @ ps) \<and>
      (\<exists>ts. texcoords obj' = texcoords obj @ ts) \<and>
      (\<exists>ns. normals obj' = normals obj @ ns))"

definition exported_example :: string where
  "exported_example = ''v 1.000000 0.500000 -1.000000'' @ [LF]"

definition short_example :: string where
  "short_example = ''v 1.0 0.5 -1.0'' @ [LF]"

definition roundtrip_example :: string where
  "roundtrip_example = ''# corner'' @ [LF] @ ''v 1 2 3'' @ [LF] @ ''usemtl A'' @ [LF] @
     [LF] @ ''f 1 1 1'' @ [LF] @ ''g tail''"

subsection \<open>A run with a missing texture\<close>

definition textured_mesh :: string where
  "textured_mesh = ''vt 0.5 0.5'' @ [LF] @ ''usemtl A'' @ [LF] @ ''f 1/1 1/1 1/1'' @ [LF]"

definition textured_library :: string where
  "textured_library = ''newmtl A'' @ [LF] @ ''map_Kd missing.png'' @ [LF]"

definition bake_args :: args where
  "bake_args = \<lparr>obj_in = ''m.obj'', mtl_arg = None, out_arg = None\<rparr>"

definition bake_world :: world where
  "bake_world = \<lparr>files_of = [''m.obj'' \<mapsto> textured_mesh, ''m.mtl'' \<mapsto> textured_library],
     stdin_line = None\<rparr>"

subsection \<open>The two readers of a material library\<close>

text \<open>
  The mapping of the claim, from the result of \<^verbatim>\<open>parse_mtl\<close>: the materials in
  order, each with a \<^verbatim>\<open>map_Kd\<close> setting its name to it. \<open>exact_keys\<close> says of
  a line that it starts with \<^verbatim>\<open>newmtl\<close> or \<^verbatim>\<open>map_kd\<close> only when that is its whole
  first word.
\<close>

definition diffuse_step :: "(string \<times> string) list \<Rightarrow> string \<times> string option \<Rightarrow> (string \<times> string) list" where
  "diffuse_step d nm = (case snd nm of None \<Rightarrow> d | Some tex \<Rightarrow> AList.update (fst nm) tex d)"

definition diffuse_maps :: "MTL \<Rightarrow> (string \<times> string) list" where
  "diffuse_maps mtl = foldl diffuse_step [] (map (\<lambda>m. (name m, map_Kd m)) (materials mtl))"

definition first_word :: "string \<Rightarrow> string" where
  "first_word raw = lower (hd (split1 (strip raw)))"

definition exact_keys :: "string \<Rightarrow> bool" where
  "exact_keys raw =
     ((if startswith (lower (strip raw)) ''newmtl'' then first_word raw = ''newmtl'' else True) \<and>
      (if startswith (lower (strip raw)) ''map_kd'' then first_word raw = ''map_kd'' else True))"

definition renamed_key_example :: string where
  "renamed_key_example = ''newmtl A'' @ [LF] @ ''map_Kd_old a.png'' @ [LF]"

definition agreeing_example :: string where
  "agreeing_example = ''# two materials'' @ [LF] @ ''newmtl A'' @ [LF] @ ''Kd 1 1 1'' @ [LF] @
     ''map_Kd a.png'' @ [LF] @ ''newmtl B'' @ [LF] @ ''newmtl A'' @ [LF] @ ''map_Kd c.png'' @ [LF]"

text \<open>
  The states of the two loops after the same lines: the dictionary is the mapping of
  the materials so far, and \<^verbatim>\<open>current_mat\<close> is the name of the current material,
  which is the last of the list.
\<close>

definition readers_agree :: "MTL \<Rightarrow> (string \<times> string) list \<times> string option \<Rightarrow> bool" where
  "readers_agree mtl st =
     (map_of (fst st) = map_of (diffuse_maps mtl) \<and>
      (case mtl_current_material mtl of
         None \<Rightarrow> materials mtl = [] \<and> snd st = None
       | Some i \<Rightarrow> materials mtl \<noteq> [] \<and> i = length (materials mtl) - 1 \<and>
           snd st = Some (name (last (materials mtl))) \<and> name (last (materials mtl)) \<noteq> []))"

subsection \<open>Numbers in decimal\<close>

text \<open>
  The decimal numeral of a natural number, by division: the text of an index as a mesh
  file writes it.
\<close>

definition digit_char :: "nat \<Rightarrow> char" where
  "digit_char k = char_of (48 + k)"

fun decimal :: "nat \<Rightarrow> string" where
  "decimal n = (if n < 10 then [digit_char n] else decimal (n div 10) @ [digit_char (n mod 10)])"

declare decimal.simps [simp del]

subsection \<open>The pixel that the sampler reads\<close>








section \<open>Properties\<close>

subsection \<open>Exceptions and strings\<close>

lemma sbind_Inr_iff: "sbind m f = Inr y \<longleftrightarrow> (\<exists>a. m = Inr a \<and> f a = Inr y)"
  by (cases m) (simp_all add: sbind_def)

lemma sbind_Inl_iff: "sbind m f = Inl e \<longleftrightarrow> m = Inl e \<or> (\<exists>a. m = Inr a \<and> f a = Inl e)"
  by (cases m) (simp_all add: sbind_def)

lemma sbind_Inl [simp]: "sbind (Inl e) f = Inl e"
  by (simp add: sbind_def)

lemma sbind_Inr [simp]: "sbind (Inr a) f = f a"
  by (simp add: sbind_def)

lemma concat_readlines: "concat (readlines s) = s"
  by (induction s) (auto split: list.splits)

lemma universal_newlines_id: "CR \<notin> set s \<Longrightarrow> universal_newlines s = s"
  by (induction s rule: universal_newlines.induct) auto

lemma strip_Cons: "\<not> py_isspace c \<Longrightarrow> strip (c # cs) = c # rev (dropWhile py_isspace (rev cs))"
  by (simp add: strip_def dropWhile_append3)

lemma startswith_Cons: "startswith s (c # p) \<longleftrightarrow> (\<exists>t. s = c # t \<and> startswith t p)"
  by (cases s) (auto simp: startswith_def)

lemma startswith_Nil [simp]: "startswith s []"
  by (simp add: startswith_def)

lemma not_space_v: "\<not> py_isspace (CHR ''v'')" by code_simp
lemma lower_v: "lower_char (CHR ''v'') = CHR ''v''" by code_simp

lemma geometry_line_head:
  assumes "startswith raw ''v '' \<or> startswith raw ''vt '' \<or> startswith raw ''vn ''"
  shows "\<exists>t. lower (strip raw) = CHR ''v'' # t"
proof -
  from assms obtain t where "raw = CHR ''v'' # t"
    by (auto simp: startswith_Cons)
  then show ?thesis
    by (simp add: strip_Cons not_space_v lower_def lower_v)
qed

lemma geometry_line_not_directive:
  assumes "startswith raw ''v '' \<or> startswith raw ''vt '' \<or> startswith raw ''vn ''"
  shows "\<not> is_usemtl_line raw" "\<not> is_face_line raw"
  using geometry_line_head [OF assms] by (auto simp: startswith_Cons is_usemtl_line_def is_face_line_def)

text \<open>A stripped string begins and ends with a character that is not whitespace.\<close>

lemma strip_ends:
  assumes "strip raw \<noteq> []"
  shows "\<not> py_isspace (hd (strip raw))" "\<not> py_isspace (last (strip raw))"
proof -
  define t where "t = dropWhile py_isspace raw"
  define u where "u = dropWhile py_isspace (rev t)"
  have s: "strip raw = rev u" by (simp add: strip_def t_def u_def)
  with assms have u: "u \<noteq> []" by simp
  then have "\<not> py_isspace (hd u)" unfolding u_def by (rule hd_dropWhile)
  then show "\<not> py_isspace (last (strip raw))" using u by (simp add: s last_rev)
  have "rev t = takeWhile py_isspace (rev t) @ u" by (simp add: u_def)
  then have "t = rev u @ rev (takeWhile py_isspace (rev t))"
    by (metis rev_append rev_rev_ident)
  then have "hd t = hd (rev u)" using u by (metis hd_append2 rev_is_Nil_conv)
  moreover have "t \<noteq> []" using u u_def by auto
  then have "\<not> py_isspace (hd t)" unfolding t_def by (rule hd_dropWhile)
  ultimately show "\<not> py_isspace (hd (strip raw))" by (simp add: s)
qed

lemma last_dropWhile: "dropWhile P xs \<noteq> [] \<Longrightarrow> last (dropWhile P xs) = last xs"
  by (induction xs) (auto split: if_splits)

lemma rstrip_id: "xs \<noteq> [] \<Longrightarrow> \<not> py_isspace (last xs) \<Longrightarrow> rev (dropWhile py_isspace (rev xs)) = xs"
  by (cases xs rule: rev_cases) auto


lemma split1_Nil: "split1 [] = []"
  by (simp add: split1_def)

lemma split1_Cons:
  "\<not> py_isspace c \<Longrightarrow>
   split1 (c # cs) =
     (if dropWhile py_isspace (dropWhile (\<lambda>a. \<not> py_isspace a) cs) = []
      then [c # takeWhile (\<lambda>a. \<not> py_isspace a) cs]
      else [c # takeWhile (\<lambda>a. \<not> py_isspace a) cs,
            dropWhile py_isspace (dropWhile (\<lambda>a. \<not> py_isspace a) cs)])"
  by (simp add: split1_def Let_def)

lemma split1_second:
  assumes "subscript (split1 (strip raw)) 1 = Inr m"
  shows "m = rest_of_line raw"
proof (cases "strip raw")
  case Nil
  with assms show ?thesis by (simp add: split1_Nil subscript_def)
next
  case (Cons c cs)
  define r where "r = dropWhile py_isspace (dropWhile (\<lambda>a. \<not> py_isspace a) cs)"
  have c: "\<not> py_isspace c" and l: "\<not> py_isspace (last (c # cs))"
    using strip_ends [of raw] Cons by auto
  have sp: "split1 (strip raw) = (if r = [] then [c # takeWhile (\<lambda>a. \<not> py_isspace a) cs]
      else [c # takeWhile (\<lambda>a. \<not> py_isspace a) cs, r])"
    unfolding Cons r_def by (rule split1_Cons [OF c])
  have r: "r \<noteq> []"
  proof
    assume "r = []"
    with sp assms show False by (simp add: subscript_def)
  qed
  with sp assms have m: "m = r" by (simp add: subscript_def)
  have d: "dropWhile (\<lambda>a. \<not> py_isspace a) cs \<noteq> []"
  proof
    assume "dropWhile (\<lambda>a. \<not> py_isspace a) cs = []"
    then have "r = []" unfolding r_def by (simp only: dropWhile.simps(1))
    with r show False by simp
  qed
  have "cs \<noteq> []"
  proof
    assume "cs = []"
    with d show False by simp
  qed
  have "last r = last (dropWhile (\<lambda>a. \<not> py_isspace a) cs)"
    unfolding r_def using r r_def by (intro last_dropWhile) simp
  also have "\<dots> = last cs" using d by (rule last_dropWhile)
  also have "\<dots> = last (c # cs)" using \<open>cs \<noteq> []\<close> by simp
  finally have "\<not> py_isspace (last r)" using l by simp
  then have "rev (dropWhile py_isspace (rev r)) = r" using r by (simp add: rstrip_id)
  moreover have "rest_of_line raw = rev (dropWhile py_isspace (rev r))"
  proof -
    have "rest_of_line raw = strip (dropWhile (\<lambda>a. \<not> py_isspace a) (c # cs))"
      by (simp only: rest_of_line_def Cons)
    also have "\<dots> = strip (dropWhile (\<lambda>a. \<not> py_isspace a) cs)"
      using c by simp
    also have "\<dots> = rev (dropWhile py_isspace (rev r))"
      by (simp add: strip_def r_def)
    finally show ?thesis .
  qed
  ultimately show ?thesis using m by simp
qed

subsection \<open>Material scoping\<close>


lemma split1_second':
  "subscript (split1 (strip raw)) (Suc 0) = Inr m \<Longrightarrow> m = rest_of_line raw"
  using split1_second [of raw m] by simp

lemma add_position_effect:
  "add_position obj s = Inr obj' \<Longrightarrow> faces obj' = faces obj \<and> current_material obj' = current_material obj"
  by (auto simp: add_position_def sbind_Inr_iff)

lemma add_texcoord_effect:
  "add_texcoord obj s = Inr obj' \<Longrightarrow> faces obj' = faces obj \<and> current_material obj' = current_material obj"
  by (auto simp: add_texcoord_def sbind_Inr_iff)

lemma add_normal_effect:
  "add_normal obj s = Inr obj' \<Longrightarrow> faces obj' = faces obj \<and> current_material obj' = current_material obj"
  by (auto simp: add_normal_def sbind_Inr_iff)

lemma use_material_effect:
  "use_material obj raw (strip raw) = Inr obj' \<Longrightarrow>
     faces obj' = faces obj \<and> current_material obj' = rest_of_line raw"
  by (auto simp: use_material_def sbind_Inr_iff dest: split1_second')

lemma add_face_effect:
  "add_face obj raw s = Inr obj' \<Longrightarrow>
     map material (faces obj') = map material (faces obj) @ [current_material obj] \<and>
     current_material obj' = current_material obj"
  by (auto simp: add_face_def sbind_Inr_iff)

lemma pass_through_effect:
  "pass_through obj raw = Inr obj' \<Longrightarrow> faces obj' = faces obj \<and> current_material obj' = current_material obj"
  by (auto simp: pass_through_def)

lemma parse_obj_line_effect:
  assumes "parse_obj_line obj raw = Inr obj'"
  shows "map material (faces obj') = map material (faces obj) @
           (if is_usemtl_line raw then [] else if is_face_line raw then [current_material obj] else []) \<and>
         current_material obj' = (if is_usemtl_line raw then rest_of_line raw else current_material obj)"
proof (cases "startswith raw ''v '' \<or> startswith raw ''vt '' \<or> startswith raw ''vn ''")
  case True
  note nd = geometry_line_not_directive [OF True]
  from True assms have "add_position obj (strip raw) = Inr obj' \<or> add_texcoord obj (strip raw) = Inr obj'
      \<or> add_normal obj (strip raw) = Inr obj'"
    by (auto simp: parse_obj_line_def Let_def split: if_splits)
  then show ?thesis
    using nd add_position_effect add_texcoord_effect add_normal_effect by auto
next
  case False
  then have eq: "parse_obj_line obj raw =
      (if is_usemtl_line raw then use_material obj raw (strip raw)
       else if is_face_line raw then add_face obj raw (strip raw) else pass_through obj raw)"
    by (simp add: parse_obj_line_def Let_def is_usemtl_line_def is_face_line_def)
  show ?thesis
  proof (cases "is_usemtl_line raw")
    case True
    with eq assms show ?thesis using use_material_effect [of obj raw obj'] by simp
  next
    case nu: False
    show ?thesis
    proof (cases "is_face_line raw")
      case True
      with nu eq assms show ?thesis using add_face_effect [of obj raw "strip raw" obj'] by simp
    next
      case False
      with nu eq assms show ?thesis using pass_through_effect [of obj raw obj'] by simp
    qed
  qed
qed

lemma parse_obj_lines_materials:
  "parse_obj_lines obj ls = Inr obj' \<Longrightarrow>
     map material (faces obj') = map material (faces obj) @ scoped_materials (current_material obj) ls"
proof (induction ls arbitrary: obj)
  case Nil
  then show ?case by simp
next
  case (Cons raw rest)
  from Cons.prems obtain obj1 where 1: "parse_obj_line obj raw = Inr obj1"
    and 2: "parse_obj_lines obj1 rest = Inr obj'"
    by (auto split: sum.splits)
  show ?case
    using Cons.IH [OF 2] parse_obj_line_effect [OF 1] by auto
qed

lemma rest_of_line_after_usemtl:
  assumes "usemtl_is_first_word raw"
  shows "rest_of_line raw = remainder_after_usemtl raw"
proof -
  define s where "s = strip raw"
  have "length (lower (takeWhile (\<lambda>a. \<not> py_isspace a) s)) = length ''usemtl''"
    using assms by (simp only: usemtl_is_first_word_def s_def)
  then have "length (takeWhile (\<lambda>a. \<not> py_isspace a) s) = length ''usemtl''"
    by (simp add: lower_def)
  moreover have "dropWhile (\<lambda>a. \<not> py_isspace a) s = drop (length (takeWhile (\<lambda>a. \<not> py_isspace a) s)) s"
    by (rule dropWhile_eq_drop)
  ultimately have "dropWhile (\<lambda>a. \<not> py_isspace a) s = drop (length ''usemtl'') s"
    by (simp only:)
  then show ?thesis
    by (simp only: rest_of_line_def remainder_after_usemtl_def s_def)
qed

text \<open>
  Claim C5, as the source has it. In a mesh that parses, a line whose trimmed,
  lower-cased form starts with \<^verbatim>\<open>usemtl\<close> sets the current material to the trimmed
  rest of the line after its first word, and every face parsed afterwards carries that
  name until the next such line: the materials of the faces, in order, are the ones in
  force at the face lines. Where \<^verbatim>\<open>usemtl\<close> is the whole first word of the line, this
  rest is the trimmed remainder of the line after \<^verbatim>\<open>usemtl\<close>. The witness is the
  text of the claim: \<^verbatim>\<open>usemtl A\<close>, two faces, \<^verbatim>\<open>usemtl B\<close>, one face give the
  materials A, A, B.
\<close>

theorem usemtl_scoping:
  assumes "parse_obj_text content = Inr obj"
  shows "map material (faces obj) = scoped_materials [] (file_lines content) \<and>
         (\<forall>raw. usemtl_is_first_word raw \<longrightarrow> rest_of_line raw = remainder_after_usemtl raw)"
  using parse_obj_lines_materials [of new_OBJ "file_lines content" obj] assms
    rest_of_line_after_usemtl
  by (simp add: parse_obj_text_def new_OBJ_def)

theorem usemtl_scoping_witness:
  "(case parse_obj_text scoping_example of
      Inl e \<Rightarrow> False
    | Inr obj \<Rightarrow> map material (faces obj) = [''A'', ''A'', ''B'']) \<and>
   usemtl_is_first_word (''usemtl A'' @ [LF]) \<and>
   remainder_after_usemtl (''usemtl A'' @ [LF]) = ''A''"
proof -
  have "(case parse_obj_text scoping_example of Inl e \<Rightarrow> False | Inr obj \<Rightarrow> True)"
    by code_simp
  then obtain obj where p: "parse_obj_text scoping_example = Inr obj"
    by (cases "parse_obj_text scoping_example") auto
  have s: "scoped_materials [] (file_lines scoping_example) = [''A'', ''A'', ''B'']"
    by code_simp
  have u: "usemtl_is_first_word (''usemtl A'' @ [LF])" by code_simp
  have r: "rest_of_line (''usemtl A'' @ [LF]) = ''A''" by code_simp
  from usemtl_scoping [OF p] have t1: "map material (faces obj) = scoped_materials [] (file_lines scoping_example)"
    and t2: "usemtl_is_first_word (''usemtl A'' @ [LF]) \<longrightarrow>
             rest_of_line (''usemtl A'' @ [LF]) = remainder_after_usemtl (''usemtl A'' @ [LF])"
    by blast+
  from t1 s have m: "map material (faces obj) = [''A'', ''A'', ''B'']" by (rule trans)
  from t2 u have "rest_of_line (''usemtl A'' @ [LF]) = remainder_after_usemtl (''usemtl A'' @ [LF])"
    by (rule mp)
  with r have q: "remainder_after_usemtl (''usemtl A'' @ [LF]) = ''A''" by (simp only:)
  show ?thesis unfolding p using m u q by simp
qed

text \<open>
  The claim as stated fails. The line \<^verbatim>\<open>usemtlfoo bar\<close> starts with \<^verbatim>\<open>usemtl\<close>, and
  the trimmed remainder of the line after \<^verbatim>\<open>usemtl\<close> is \<^verbatim>\<open>foo bar\<close>; the parser
  sets the current material to \<^verbatim>\<open>bar\<close>, the text after the first word, and the
  face that follows carries \<^verbatim>\<open>bar\<close>. A line \<^verbatim>\<open>usemtlA\<close> sets nothing: it raises
  IndexError.
\<close>

theorem usemtl_joined_word:
  "is_usemtl_line (''usemtlfoo bar'' @ [LF]) \<and>
   remainder_after_usemtl (''usemtlfoo bar'' @ [LF]) = ''foo bar'' \<and>
   map_sum id (\<lambda>obj. (current_material obj, map material (faces obj)))
     (parse_obj_text joined_word_example) = Inr (''bar'', [''bar'']) \<and>
   is_usemtl_line ''usemtlA'' \<and> remainder_after_usemtl ''usemtlA'' = ''A'' \<and>
   parse_obj_text ''usemtlA'' = Inl IndexError"
  by code_simp

subsection \<open>Face-vertex tokens\<close>

lemma is_digit_digit_char: "k < 10 \<Longrightarrow> is_digit (digit_char k)"
  by (simp add: is_digit_def digit_char_def)

lemma digit_val_digit_char: "k < 10 \<Longrightarrow> digit_val (digit_char k) = int k"
proof -
  assume k: "k < 10"
  have "(of_char (digit_char k) :: int) = int (of_char (digit_char k))"
    by (simp only: of_nat_of_char)
  also have "(of_char (digit_char k) :: nat) = 48 + k"
    using k by (simp add: digit_char_def)
  finally show ?thesis by (simp add: digit_val_def)
qed

lemma not_digit_chars:
  "\<not> is_digit (CHR ''_'')" "\<not> is_digit (CHR ''/'')" "\<not> is_digit (CHR ''-'')" "\<not> is_digit (CHR ''+'')"
  by code_simp+

lemma digit_not_space: "is_digit c \<Longrightarrow> \<not> num_isspace c"
  by (auto simp: is_digit_def num_isspace_def Let_def)

lemma decimal_digits: "decimal n \<noteq> [] \<and> list_all is_digit (decimal n)"
proof (induction n rule: decimal.induct)
  case (1 n)
  show ?case
  proof (cases "n < 10")
    case True
    then show ?thesis by (subst decimal.simps, subst decimal.simps) (simp add: is_digit_digit_char)
  next
    case False
    with 1 have "decimal (n div 10) \<noteq> [] \<and> list_all is_digit (decimal (n div 10))" by simp
    moreover have "is_digit (digit_char (n mod 10))" by (simp add: is_digit_digit_char)
    ultimately show ?thesis using False
      by (subst decimal.simps, subst (2) decimal.simps) simp
  qed
qed

lemma digits_val_snoc: "digits_val (ds @ [c]) = 10 * digits_val ds + digit_val c"
  by (simp add: digits_val_def)

lemma digits_val_decimal: "digits_val (decimal n) = int n"
proof (induction n rule: decimal.induct)
  case (1 n)
  show ?case
  proof (cases "n < 10")
    case True
    then show ?thesis
      by (subst decimal.simps) (simp add: digits_val_def digit_val_digit_char)
  next
    case False
    with 1 have "digits_val (decimal (n div 10)) = int (n div 10)" by simp
    moreover have "int n = 10 * int (n div 10) + int (n mod 10)"
      by (metis mult_div_mod_eq of_nat_add of_nat_mult of_nat_numeral)
    ultimately show ?thesis using False
      by (subst decimal.simps) (simp add: digits_val_snoc digit_val_digit_char)
  qed
qed

lemma digit_groups_digits:
  "ds \<noteq> [] \<Longrightarrow> list_all is_digit ds \<Longrightarrow> digit_groups ds = Some ds"
proof (induction ds rule: digit_groups.induct)
  case 1
  then show ?case by simp
next
  case (2 c)
  then show ?case by simp
next
  case (3 c d cs)
  from "3.prems" have c: "is_digit c" and d: "is_digit d" and r: "list_all is_digit (d # cs)"
    by simp_all
  from d have u: "d \<noteq> CHR ''_''" using not_digit_chars(1) by auto
  from "3.IH"(2) c u r have "digit_groups (d # cs) = Some (d # cs)" by simp
  with c u show ?case by simp
qed

lemma num_strip_digits:
  assumes "ds \<noteq> []" and "list_all is_digit ds"
  shows "num_strip ds = ds"
proof -
  from assms obtain c cs where ds: "ds = c # cs" by (cases ds) auto
  have h: "\<not> num_isspace c" using assms(2) ds by (simp add: digit_not_space)
  have "is_digit (last ds)" using assms by (simp add: list_all_iff)
  then have l: "\<not> num_isspace (last ds)" by (rule digit_not_space)
  have "dropWhile num_isspace ds = ds" using h ds by simp
  moreover have "dropWhile num_isspace (rev ds) = rev ds"
    using l assms(1) by (cases ds rule: rev_cases) auto
  ultimately show ?thesis by (simp add: num_strip_def)
qed

lemma take_sign_digits:
  assumes "ds \<noteq> []" and "list_all is_digit ds"
  shows "take_sign ds = (False, ds)"
proof -
  from assms obtain c cs where ds: "ds = c # cs" by (cases ds) auto
  with assms(2) have "is_digit c" by simp
  then have "c \<noteq> CHR ''-''" "c \<noteq> CHR ''+''" using not_digit_chars by auto
  then show ?thesis by (simp add: ds)
qed

lemma py_int_digits:
  assumes "ds \<noteq> []" and "list_all is_digit ds" and "length ds \<le> 4300"
  shows "py_int ds = Inr (digits_val ds)"
  using assms(3)
  by (simp add: py_int_def num_strip_digits [OF assms(1,2)] take_sign_digits [OF assms(1,2)]
      digit_groups_digits [OF assms(1,2)])

lemma py_int_decimal:
  "length (decimal n) \<le> 4300 \<Longrightarrow> py_int (decimal n) = Inr (int n)"
  using decimal_digits [of n] by (simp add: py_int_digits digits_val_decimal)

lemma no_slash_in_digits: "list_all is_digit ds \<Longrightarrow> CHR ''/'' \<notin> set ds"
  using not_digit_chars(2) by (auto simp: list_all_iff)

lemma split_on_none: "d \<notin> set a \<Longrightarrow> split_on d a = [a]"
  by (induction a) auto

lemma split_on_first: "d \<notin> set a \<Longrightarrow> split_on d (a @ d # r) = a # split_on d r"
  by (induction a) auto

lemma index_part_decimal:
  assumes "length (decimal n) \<le> 4300" and "i < length parts" and "parts ! i = decimal n"
  shows "index_part True parts i = Inr (Some (int n - 1))"
  using decimal_digits [of n] assms by (simp add: index_part_def py_int_decimal)

lemma index_part_empty: "parts ! i = [] \<Longrightarrow> index_part g parts i = Inr None"
  by (simp add: index_part_def)

lemma index_part_short: "index_part False parts i = Inr None"
  by (simp add: index_part_def)

text \<open>
  Claim C6. The indices of a face-vertex token are turned from 1-based to 0-based, and
  the fields that the token leaves out are absent: for all numbers written in decimal
  (with at most 4300 digits, the most that \<^verbatim>\<open>int\<close> accepts), each of the four shapes
  \<^verbatim>\<open>v\<close>, \<^verbatim>\<open>v/vt\<close>, \<^verbatim>\<open>v//vn\<close> and \<^verbatim>\<open>v/vt/vn\<close> parses without error to
  the numbers less one, with the texcoord and the normal index present exactly where
  the token has them. The witness is the text of the claim: \<^verbatim>\<open>5/3/2\<close> gives the
  position index 4, the texcoord index 2 and the normal index 1, and so for
  \<^verbatim>\<open>5\<close>, \<^verbatim>\<open>5/3\<close>, \<^verbatim>\<open>5//2\<close>.
\<close>

theorem face_vertex_tokens:
  assumes "length (decimal v) \<le> 4300" and "length (decimal vt) \<le> 4300"
    and "length (decimal vn) \<le> 4300"
  shows "parse_face_vertex (decimal v) =
           Inr \<lparr>position_index = Some (int v - 1), texcoord_index = None, normal_index = None\<rparr> \<and>
         parse_face_vertex (decimal v @ ''/'' @ decimal vt) =
           Inr \<lparr>position_index = Some (int v - 1), texcoord_index = Some (int vt - 1),
                normal_index = None\<rparr> \<and>
         parse_face_vertex (decimal v @ ''//'' @ decimal vn) =
           Inr \<lparr>position_index = Some (int v - 1), texcoord_index = None,
                normal_index = Some (int vn - 1)\<rparr> \<and>
         parse_face_vertex (decimal v @ ''/'' @ decimal vt @ ''/'' @ decimal vn) =
           Inr \<lparr>position_index = Some (int v - 1), texcoord_index = Some (int vt - 1),
                normal_index = Some (int vn - 1)\<rparr>"
proof -
  have sv: "CHR ''/'' \<notin> set (decimal v)" and st: "CHR ''/'' \<notin> set (decimal vt)"
    and sn: "CHR ''/'' \<notin> set (decimal vn)"
    using decimal_digits no_slash_in_digits by blast+
  have p1: "split_on (CHR ''/'') (decimal v) = [decimal v]"
    using sv by (rule split_on_none)
  have p2: "split_on (CHR ''/'') (decimal v @ ''/'' @ decimal vt) = [decimal v, decimal vt]"
    using split_on_first [OF sv, of "decimal vt"] split_on_none [OF st] by simp
  have p3: "split_on (CHR ''/'') (decimal v @ ''//'' @ decimal vn) = [decimal v, [], decimal vn]"
    using split_on_first [OF sv, of "CHR ''/'' # decimal vn"] split_on_none [OF sn] by simp
  have p4: "split_on (CHR ''/'') (decimal v @ ''/'' @ decimal vt @ ''/'' @ decimal vn) =
      [decimal v, decimal vt, decimal vn]"
    using split_on_first [OF sv, of "decimal vt @ CHR ''/'' # decimal vn"]
      split_on_first [OF st, of "decimal vn"] split_on_none [OF sn] by simp
  have 1: "parse_face_vertex (decimal v) =
           Inr \<lparr>position_index = Some (int v - 1), texcoord_index = None, normal_index = None\<rparr>"
    unfolding parse_face_vertex_def p1 Let_def
    by (simp add: index_part_decimal [OF assms(1)] index_part_short)
  have 2: "parse_face_vertex (decimal v @ ''/'' @ decimal vt) =
           Inr \<lparr>position_index = Some (int v - 1), texcoord_index = Some (int vt - 1),
                normal_index = None\<rparr>"
    unfolding parse_face_vertex_def p2 Let_def
    by (simp add: index_part_decimal [OF assms(1)] index_part_decimal [OF assms(2)] index_part_short)
  have 3: "parse_face_vertex (decimal v @ ''//'' @ decimal vn) =
           Inr \<lparr>position_index = Some (int v - 1), texcoord_index = None,
                normal_index = Some (int vn - 1)\<rparr>"
    unfolding parse_face_vertex_def p3 Let_def
    by (simp add: index_part_decimal [OF assms(1)] index_part_decimal [OF assms(3)] index_part_empty)
  have 4: "parse_face_vertex (decimal v @ ''/'' @ decimal vt @ ''/'' @ decimal vn) =
           Inr \<lparr>position_index = Some (int v - 1), texcoord_index = Some (int vt - 1),
                normal_index = Some (int vn - 1)\<rparr>"
    unfolding parse_face_vertex_def p4 Let_def
    by (simp add: index_part_decimal [OF assms(1)] index_part_decimal [OF assms(2)]
        index_part_decimal [OF assms(3)])
  from 1 2 3 4 show ?thesis by simp
qed

theorem face_vertex_tokens_witness:
  "parse_face_vertex ''5/3/2'' =
     Inr \<lparr>position_index = Some 4, texcoord_index = Some 2, normal_index = Some 1\<rparr> \<and>
   parse_face_vertex ''5'' =
     Inr \<lparr>position_index = Some 4, texcoord_index = None, normal_index = None\<rparr> \<and>
   parse_face_vertex ''5/3'' =
     Inr \<lparr>position_index = Some 4, texcoord_index = Some 2, normal_index = None\<rparr> \<and>
   parse_face_vertex ''5//2'' =
     Inr \<lparr>position_index = Some 4, texcoord_index = None, normal_index = Some 1\<rparr> \<and>
   map_sum id (\<lambda>obj. map vertices (faces obj)) (parse_obj_text ''f 5/3/2 5 5/3 5//2'') =
     Inr [[\<lparr>position_index = Some 4, texcoord_index = Some 2, normal_index = Some 1\<rparr>,
           \<lparr>position_index = Some 4, texcoord_index = None, normal_index = None\<rparr>,
           \<lparr>position_index = Some 4, texcoord_index = Some 2, normal_index = None\<rparr>,
           \<lparr>position_index = Some 4, texcoord_index = None, normal_index = Some 1\<rparr>]]"
proof -
  have d: "decimal 5 = ''5''" "decimal 3 = ''3''" "decimal 2 = ''2''" by code_simp+
  have l: "length (decimal 5) \<le> 4300" "length (decimal 3) \<le> 4300" "length (decimal 2) \<le> 4300"
    by (simp_all add: d)
  have w: "map_sum id (\<lambda>obj. map vertices (faces obj)) (parse_obj_text ''f 5/3/2 5 5/3 5//2'') =
     Inr [[\<lparr>position_index = Some 4, texcoord_index = Some 2, normal_index = Some 1\<rparr>,
           \<lparr>position_index = Some 4, texcoord_index = None, normal_index = None\<rparr>,
           \<lparr>position_index = Some 4, texcoord_index = Some 2, normal_index = None\<rparr>,
           \<lparr>position_index = Some 4, texcoord_index = None, normal_index = Some 1\<rparr>]]"
    by code_simp
  from face_vertex_tokens [OF l] w show ?thesis by (simp add: d)
qed

subsection \<open>A usemtl line without a name\<close>

lemma parse_obj_lines_fails:
  assumes "raw \<in> set ls" and "\<And>obj. \<exists>e. parse_obj_line obj raw = Inl e"
  shows "\<exists>e. parse_obj_lines obj ls = Inl e"
  using assms(1)
proof (induction ls arbitrary: obj)
  case Nil
  then show ?case by simp
next
  case (Cons a ls)
  show ?case
  proof (cases "parse_obj_line obj a")
    case (Inl e)
    then show ?thesis by simp
  next
    case (Inr obj1)
    with assms(2) [of obj] have "a \<noteq> raw" by auto
    with Cons.prems have "raw \<in> set ls" by simp
    from Cons.IH [OF this] Inr show ?thesis by simp
  qed
qed

lemma lower_usemtl: "lower ''usemtl'' = ''usemtl''" by code_simp
lemma split1_usemtl: "split1 ''usemtl'' = [''usemtl'']" by code_simp

lemma bare_usemtl_line:
  assumes "strip raw = ''usemtl''"
  shows "parse_obj_line obj raw = Inl IndexError"
proof -
  have "\<not> (startswith raw ''v '' \<or> startswith raw ''vt '' \<or> startswith raw ''vn '')"
  proof
    assume "startswith raw ''v '' \<or> startswith raw ''vt '' \<or> startswith raw ''vn ''"
    from geometry_line_head [OF this] show False
      by (simp add: assms lower_usemtl)
  qed
  then have "parse_obj_line obj raw = use_material obj raw ''usemtl''"
    by (simp add: parse_obj_line_def assms lower_usemtl startswith_def)
  then show ?thesis
    by (simp add: use_material_def split1_usemtl subscript_def)
qed

text \<open>
  Claim C10. A mesh text with a line whose trimmed form is exactly \<^verbatim>\<open>usemtl\<close> does not
  parse: that line raises IndexError (there is no second word to take), so
  \<^verbatim>\<open>parse_obj\<close> ends in an exception, this one or that of an earlier line, and
  returns no mesh.
\<close>

theorem usemtl_without_name_raises:
  assumes "raw \<in> set (file_lines content)" and "strip raw = ''usemtl''"
  shows "(\<forall>obj. parse_obj_line obj raw = Inl IndexError) \<and> (\<exists>e. parse_obj_text content = Inl e)"
proof
  show "\<forall>obj. parse_obj_line obj raw = Inl IndexError"
    using bare_usemtl_line [OF assms(2)] by simp
  then show "\<exists>e. parse_obj_text content = Inl e"
    unfolding parse_obj_text_def
    by (intro parse_obj_lines_fails [OF assms(1)]) simp
qed

theorem usemtl_without_name_raises_witness:
  "(''usemtl'' @ [LF]) \<in> set (file_lines bare_usemtl_example) \<and>
   strip (''usemtl'' @ [LF]) = ''usemtl'' \<and>
   parse_obj_text bare_usemtl_example = Inl IndexError"
proof -
  have 1: "(''usemtl'' @ [LF]) \<in> set (file_lines bare_usemtl_example)" by code_simp
  have 2: "strip (''usemtl'' @ [LF]) = ''usemtl''" by code_simp
  have 3: "(case parse_obj_text bare_usemtl_example of Inl e \<Rightarrow> e = IndexError | Inr obj \<Rightarrow> True)"
    by code_simp
  from usemtl_without_name_raises [OF 1 2] obtain e where "parse_obj_text bare_usemtl_example = Inl e"
    by blast
  with 1 2 3 show ?thesis by simp
qed

subsection \<open>A directive without its value\<close>

lemma split_Nil_iff: "split t = [] \<longleftrightarrow> dropWhile py_isspace t = []"
  by (subst split.simps) (simp split: list.splits del: dropWhile_eq_Nil_conv)

lemma split_Cons:
  "\<not> py_isspace c \<Longrightarrow>
   split (c # cs) = (c # takeWhile (\<lambda>a. \<not> py_isspace a) cs) # split (dropWhile (\<lambda>a. \<not> py_isspace a) cs)"
  by (subst split.simps) simp

lemma parse_mtl_lines_fails:
  assumes "raw \<in> set ls" and "\<And>mtl. \<exists>e. parse_mtl_line mtl raw = Inl e"
  shows "\<exists>e. parse_mtl_lines mtl ls = Inl e"
  using assms(1)
proof (induction ls arbitrary: mtl)
  case Nil
  then show ?case by simp
next
  case (Cons a ls)
  show ?case
  proof (cases "parse_mtl_line mtl a")
    case (Inl e)
    then show ?thesis by simp
  next
    case (Inr mtl1)
    with assms(2) [of mtl] have "a \<noteq> raw" by auto
    with Cons.prems have "raw \<in> set ls" by simp
    from Cons.IH [OF this] Inr show ?thesis by simp
  qed
qed

lemma single_token_line:
  assumes "strip raw \<noteq> []" and "\<not> startswith (strip raw) ''#''"
    and "length (split (strip raw)) = 1"
  shows "parse_mtl_line mtl raw = Inl AssertionError"
proof -
  from assms(1) obtain c cs where s: "strip raw = c # cs" by (cases "strip raw") auto
  have c: "\<not> py_isspace c" using strip_ends(1) [of raw] s by simp
  from assms(3) have "split (dropWhile (\<lambda>a. \<not> py_isspace a) cs) = []"
    by (simp add: s split_Cons [OF c])
  then have "dropWhile py_isspace (dropWhile (\<lambda>a. \<not> py_isspace a) cs) = []"
    by (simp only: split_Nil_iff)
  then have "split1 (c # cs) = [c # takeWhile (\<lambda>a. \<not> py_isspace a) cs]"
    by (simp add: split1_Cons [OF c] del: dropWhile_eq_Nil_conv)
  then show ?thesis
    using assms(2) by (simp add: parse_mtl_line_def s subscript_def)
qed

text \<open>
  Claim C4. A material library with a line that is not blank, is not a comment and
  consists of a single word (a directive without its value) does not parse: the check
  of the value (\<^verbatim>\<open>assert value\<close>) fails on that line, so \<^verbatim>\<open>parse_mtl\<close> ends in
  an exception, this one or that of an earlier line, and returns no library.
\<close>

theorem directive_missing_value:
  assumes "raw \<in> set (file_lines content)"
    and "strip raw \<noteq> []" and "\<not> startswith (strip raw) ''#''"
    and "length (split (strip raw)) = 1"
  shows "(\<forall>mtl. parse_mtl_line mtl raw = Inl AssertionError) \<and>
         (\<exists>e. parse_mtl_text content = Inl e)"
proof
  show "\<forall>mtl. parse_mtl_line mtl raw = Inl AssertionError"
    using single_token_line [OF assms(2-4)] by simp
  then show "\<exists>e. parse_mtl_text content = Inl e"
    unfolding parse_mtl_text_def
    by (intro parse_mtl_lines_fails [OF assms(1)]) simp
qed

theorem directive_missing_value_witness:
  "(''map_Kd'' @ [LF]) \<in> set (file_lines missing_value_example) \<and>
   strip (''map_Kd'' @ [LF]) \<noteq> [] \<and>
   startswith (strip (''map_Kd'' @ [LF])) ''#'' = False \<and>
   length (split (strip (''map_Kd'' @ [LF]))) = 1 \<and>
   parse_mtl_text missing_value_example = Inl AssertionError"
proof -
  have 1: "(''map_Kd'' @ [LF]) \<in> set (file_lines missing_value_example)" by code_simp
  have 2: "strip (''map_Kd'' @ [LF]) \<noteq> []" by code_simp
  have 3: "\<not> startswith (strip (''map_Kd'' @ [LF])) ''#''" by code_simp
  have 4: "length (split (strip (''map_Kd'' @ [LF]))) = 1" by code_simp
  have 5: "(case parse_mtl_text missing_value_example of Inl e \<Rightarrow> e = AssertionError | Inr mtl \<Rightarrow> True)"
    by code_simp
  from directive_missing_value [OF 1 2 3 4] obtain e where "parse_mtl_text missing_value_example = Inl e"
    by blast
  with 1 2 3 4 5 show ?thesis by simp
qed

subsection \<open>Face indices and the arrays\<close>


lemma py_int_error: "py_int s = Inl e \<Longrightarrow> e = ValueError"
  by (auto simp: py_int_def Let_def split: prod.splits option.splits if_splits)

lemma index_part_error: "index_part g parts i = Inl e \<Longrightarrow> e = ValueError"
  by (auto simp: index_part_def sbind_Inl_iff split: if_splits dest: py_int_error)

lemma parse_face_vertex_error: "parse_face_vertex vert = Inl e \<Longrightarrow> e = ValueError"
  by (auto simp: parse_face_vertex_def Let_def sbind_Inl_iff dest: index_part_error)

lemma parse_face_vertices_error: "parse_face_vertices verts = Inl e \<Longrightarrow> e = ValueError"
  by (induction verts) (auto simp: sbind_Inl_iff dest: parse_face_vertex_error)

lemma face_line_branch:
  assumes "is_face_line raw"
  shows "parse_obj_line obj raw = add_face obj raw (strip raw)"
proof -
  have g: "\<not> (startswith raw ''v '' \<or> startswith raw ''vt '' \<or> startswith raw ''vn '')"
    using geometry_line_not_directive(2) [of raw] assms by blast
  have "\<not> startswith (lower (strip raw)) ''usemtl''"
    using assms by (auto simp: is_face_line_def startswith_Cons)
  with g assms show ?thesis
    by (simp add: parse_obj_line_def is_face_line_def)
qed

text \<open>
  Claim C2, as the source has it. The parser never compares an index with the arrays
  declared so far. A face line fails only when an index part of one of its tokens is
  not an integer literal, and then with ValueError; otherwise the face is appended
  with each index as written, minus one, whatever the arrays hold.
\<close>

theorem face_indices_unchecked:
  assumes "is_face_line raw"
  shows "parse_obj_line obj raw =
           (case parse_face_vertices (tl (split (strip raw))) of
              Inl e \<Rightarrow> Inl ValueError
            | Inr face_vertices \<Rightarrow>
                Inr (obj\<lparr>faces := faces obj @
                           [\<lparr>vertices = face_vertices, material = current_material obj,
                             line = strip raw\<rparr>],
                         out_lines := out_lines obj @ [Verbatim raw]\<rparr>))"
proof (cases "parse_face_vertices (tl (split (strip raw)))")
  case (Inl e)
  then show ?thesis
    using parse_face_vertices_error [OF Inl]
    by (simp add: face_line_branch [OF assms] add_face_def)
next
  case (Inr fvs)
  then show ?thesis
    by (simp add: face_line_branch [OF assms] add_face_def)
qed

theorem face_indices_unchecked_witness:
  "is_face_line ''f 7/8/9 1'' \<and>
   parse_obj_line new_OBJ ''f 7/8/9 1'' =
     Inr (new_OBJ\<lparr>faces :=
            [\<lparr>vertices = [\<lparr>position_index = Some 6, texcoord_index = Some 7, normal_index = Some 8\<rparr>,
                           \<lparr>position_index = Some 0, texcoord_index = None, normal_index = None\<rparr>],
              material = [], line = ''f 7/8/9 1''\<rparr>],
          out_lines := [Verbatim ''f 7/8/9 1'']\<rparr>)"
proof -
  have 1: "is_face_line ''f 7/8/9 1''" by code_simp
  have 2: "parse_face_vertices (tl (split ''f 7/8/9 1'')) =
     Inr [\<lparr>position_index = Some 6, texcoord_index = Some 7, normal_index = Some 8\<rparr>,
          \<lparr>position_index = Some 0, texcoord_index = None, normal_index = None\<rparr>]" by code_simp
  have 3: "strip ''f 7/8/9 1'' = ''f 7/8/9 1''" by code_simp
  show ?thesis
    using face_indices_unchecked [OF 1, of new_OBJ] 1
    by (simp add: 2 3 new_OBJ_def)
qed

text \<open>
  The claim as stated fails: in a file that declares no position, texcoord or normal,
  the face \<^verbatim>\<open>f 5/3/2 6/4/2 7/5/2\<close> refers to nothing that exists, and the parser
  returns a mesh with this face.
\<close>

theorem out_of_range_index_accepted:
  "parse_obj_text ''f 5/3/2 6/4/2 7/5/2'' =
     Inr \<lparr>positions = [], texcoords = [], normals = [],
          faces = [\<lparr>vertices =
                      [\<lparr>position_index = Some 4, texcoord_index = Some 2, normal_index = Some 1\<rparr>,
                       \<lparr>position_index = Some 5, texcoord_index = Some 3, normal_index = Some 1\<rparr>,
                       \<lparr>position_index = Some 6, texcoord_index = Some 4, normal_index = Some 1\<rparr>],
                    material = [], line = ''f 5/3/2 6/4/2 7/5/2''\<rparr>],
          out_lines = [Verbatim ''f 5/3/2 6/4/2 7/5/2''], current_material = []\<rparr>"
  by code_simp

subsection \<open>The round trip\<close>

lemma extends_refl: "extends obj obj"
  by (simp add: extends_def)

lemma extends_trans: "extends a b \<Longrightarrow> extends b c \<Longrightarrow> extends a c"
  by (auto simp: extends_def)

lemma add_position_replay:
  assumes "add_position obj (strip raw) = Inr obj1"
    and "case position_of (split (strip raw)) of Inl e \<Rightarrow> True | Inr pos \<Rightarrow> ep pos = raw"
  shows "extends obj obj1 \<and> (\<exists>r. out_lines obj1 = out_lines obj @ [r] \<and>
           (\<forall>X. extends obj1 X \<longrightarrow> replay_record ep et en X r = raw))"
proof -
  from assms(1) obtain pos where p: "position_of (split (strip raw)) = Inr pos"
    and o: "obj1 = obj\<lparr>positions := positions obj @ [pos],
                out_lines := out_lines obj @ [Tag ''v'' (length (positions obj @ [pos]) - 1)]\<rparr>"
    by (auto simp: add_position_def sbind_Inr_iff)
  from assms(2) p have e: "ep pos = raw" by simp
  have "extends obj obj1" by (simp add: o extends_def)
  moreover have "replay_record ep et en X (Tag ''v'' (length (positions obj))) = raw"
    if "extends obj1 X" for X
  proof -
    from that obtain ps where "positions X = positions obj @ [pos] @ ps"
      by (auto simp: extends_def o)
    then show ?thesis by (simp add: replay_record_def e nth_append)
  qed
  ultimately show ?thesis by (simp add: o)
qed

lemma add_texcoord_replay:
  assumes "add_texcoord obj (strip raw) = Inr obj1"
    and "case texcoord_of (split (strip raw)) of Inl e \<Rightarrow> True | Inr tex \<Rightarrow> et tex = raw"
  shows "extends obj obj1 \<and> (\<exists>r. out_lines obj1 = out_lines obj @ [r] \<and>
           (\<forall>X. extends obj1 X \<longrightarrow> replay_record ep et en X r = raw))"
proof -
  from assms(1) obtain tex where p: "texcoord_of (split (strip raw)) = Inr tex"
    and o: "obj1 = obj\<lparr>texcoords := texcoords obj @ [tex],
                out_lines := out_lines obj @ [Tag ''vt'' (length (texcoords obj @ [tex]) - 1)]\<rparr>"
    by (auto simp: add_texcoord_def sbind_Inr_iff)
  from assms(2) p have e: "et tex = raw" by simp
  have "extends obj obj1" by (simp add: o extends_def)
  moreover have "replay_record ep et en X (Tag ''vt'' (length (texcoords obj))) = raw"
    if "extends obj1 X" for X
  proof -
    from that obtain ts where "texcoords X = texcoords obj @ [tex] @ ts"
      by (auto simp: extends_def o)
    then show ?thesis by (simp add: replay_record_def e nth_append)
  qed
  ultimately show ?thesis by (simp add: o)
qed

lemma add_normal_replay:
  assumes "add_normal obj (strip raw) = Inr obj1"
    and "case normal_of (split (strip raw)) of Inl e \<Rightarrow> True | Inr nrm \<Rightarrow> en nrm = raw"
  shows "extends obj obj1 \<and> (\<exists>r. out_lines obj1 = out_lines obj @ [r] \<and>
           (\<forall>X. extends obj1 X \<longrightarrow> replay_record ep et en X r = raw))"
proof -
  from assms(1) obtain nrm where p: "normal_of (split (strip raw)) = Inr nrm"
    and o: "obj1 = obj\<lparr>normals := normals obj @ [nrm],
                out_lines := out_lines obj @ [Tag ''vn'' (length (normals obj @ [nrm]) - 1)]\<rparr>"
    by (auto simp: add_normal_def sbind_Inr_iff)
  from assms(2) p have e: "en nrm = raw" by simp
  have "extends obj obj1" by (simp add: o extends_def)
  moreover have "replay_record ep et en X (Tag ''vn'' (length (normals obj))) = raw"
    if "extends obj1 X" for X
  proof -
    from that obtain ns where "normals X = normals obj @ [nrm] @ ns"
      by (auto simp: extends_def o)
    then show ?thesis by (simp add: replay_record_def e nth_append)
  qed
  ultimately show ?thesis by (simp add: o)
qed

lemma verbatim_replay:
  assumes "use_material obj raw s = Inr obj1 \<or> add_face obj raw s = Inr obj1 \<or> pass_through obj raw = Inr obj1"
  shows "extends obj obj1 \<and> (\<exists>r. out_lines obj1 = out_lines obj @ [r] \<and>
           (\<forall>X. extends obj1 X \<longrightarrow> replay_record ep et en X r = raw))"
proof -
  from assms obtain m fs where
    "obj1 = obj\<lparr>current_material := m, out_lines := out_lines obj @ [Verbatim raw]\<rparr> \<or>
     obj1 = obj\<lparr>faces := fs, out_lines := out_lines obj @ [Verbatim raw]\<rparr> \<or>
     obj1 = obj\<lparr>out_lines := out_lines obj @ [Verbatim raw]\<rparr>"
    by (auto simp: use_material_def add_face_def pass_through_def sbind_Inr_iff)
  then show ?thesis
    by (auto simp: extends_def replay_record_def)
qed

lemma parse_obj_line_replay:
  assumes "parse_obj_line obj raw = Inr obj1" and "regenerable ep et en raw"
  shows "extends obj obj1 \<and> (\<exists>r. out_lines obj1 = out_lines obj @ [r] \<and>
           (\<forall>X. extends obj1 X \<longrightarrow> replay_record ep et en X r = raw))"
proof (cases "startswith raw ''v ''")
  case True
  with assms show ?thesis
    by (intro add_position_replay) (simp_all add: parse_obj_line_def regenerable_def)
next
  case nv: False
  show ?thesis
  proof (cases "startswith raw ''vt ''")
    case True
    with nv assms show ?thesis
      by (intro add_texcoord_replay) (simp_all add: parse_obj_line_def regenerable_def)
  next
    case nvt: False
    show ?thesis
    proof (cases "startswith raw ''vn ''")
      case True
      with nv nvt assms show ?thesis
        by (intro add_normal_replay) (simp_all add: parse_obj_line_def regenerable_def)
    next
      case False
      with nv nvt assms(1) have "use_material obj raw (strip raw) = Inr obj1 \<or>
          add_face obj raw (strip raw) = Inr obj1 \<or> pass_through obj raw = Inr obj1"
        by (simp add: parse_obj_line_def Let_def split: if_splits)
      then show ?thesis by (rule verbatim_replay)
    qed
  qed
qed

lemma parse_obj_lines_replay:
  assumes "parse_obj_lines obj ls = Inr obj'" and "\<forall>raw \<in> set ls. regenerable ep et en raw"
  shows "extends obj obj' \<and> (\<exists>rs. out_lines obj' = out_lines obj @ rs \<and>
           (\<forall>X. extends obj' X \<longrightarrow> concat (map (replay_record ep et en X) rs) = concat ls))"
  using assms
proof (induction ls arbitrary: obj)
  case Nil
  then show ?case by (simp add: extends_refl)
next
  case (Cons raw rest)
  from Cons.prems(1) obtain obj1 where 1: "parse_obj_line obj raw = Inr obj1"
    and 2: "parse_obj_lines obj1 rest = Inr obj'"
    by (auto split: sum.splits)
  from Cons.prems(2) have g: "regenerable ep et en raw" and gs: "\<forall>raw \<in> set rest. regenerable ep et en raw"
    by simp_all
  from parse_obj_line_replay [OF 1 g] obtain r where
    e1: "extends obj obj1" and o1: "out_lines obj1 = out_lines obj @ [r]"
    and r1: "\<And>X. extends obj1 X \<Longrightarrow> replay_record ep et en X r = raw"
    by blast
  from Cons.IH [OF 2 gs] obtain rs where
    e2: "extends obj1 obj'" and o2: "out_lines obj' = out_lines obj1 @ rs"
    and r2: "\<And>X. extends obj' X \<Longrightarrow> concat (map (replay_record ep et en X) rs) = concat rest"
    by blast
  have "extends obj obj'" using e1 e2 by (rule extends_trans)
  moreover have "out_lines obj' = out_lines obj @ (r # rs)" by (simp add: o1 o2)
  moreover have "concat (map (replay_record ep et en X) (r # rs)) = concat (raw # rest)"
    if "extends obj' X" for X
    using r1 [OF extends_trans [OF e2 that]] r2 [OF that] by simp
  ultimately show ?case by blast
qed

text \<open>
  Claim C1, as the source has it. For a mesh text without carriage returns on which the
  parser succeeds, replaying the shadow line sequence in order reproduces the text
  exactly, provided the emitters return each \<^verbatim>\<open>v\<close>, \<^verbatim>\<open>vt\<close> and \<^verbatim>\<open>vn\<close>
  line of the text for the entity parsed from it: the records are in the order of the
  lines, every tag refers to the entity of its own line, and every other line is kept
  verbatim. (A carriage return is read as a line feed and is lost before the parser
  sees the line.)
\<close>

theorem replay_reproduces:
  assumes "parse_obj_text content = Inr obj" and "CR \<notin> set content"
    and "\<forall>raw \<in> set (file_lines content). regenerable ep et en raw"
  shows "replay ep et en obj = content"
proof -
  from parse_obj_lines_replay [OF assms(1) [unfolded parse_obj_text_def] assms(3)]
  have "concat (map (replay_record ep et en obj) (out_lines obj)) = concat (file_lines content)"
    by (auto simp: new_OBJ_def extends_refl)
  then show ?thesis
    by (simp add: replay_def file_lines_def concat_readlines universal_newlines_id [OF assms(2)])
qed


theorem replay_reproduces_witness:
  "(case parse_obj_text roundtrip_example of
      Inl e \<Rightarrow> False
    | Inr obj \<Rightarrow>
        replay (\<lambda>p. ''v 1 2 3'' @ [LF]) (\<lambda>t. []) (\<lambda>n. []) obj = roundtrip_example)"
proof -
  have "(case parse_obj_text roundtrip_example of Inl e \<Rightarrow> False | Inr obj \<Rightarrow> True)"
    by code_simp
  then obtain obj where 1: "parse_obj_text roundtrip_example = Inr obj"
    by (cases "parse_obj_text roundtrip_example") auto
  have 2: "CR \<notin> set roundtrip_example" by code_simp
  have 3: "\<forall>raw \<in> set (file_lines roundtrip_example).
      regenerable (\<lambda>p. ''v 1 2 3'' @ [LF]) (\<lambda>t. []) (\<lambda>n. []) raw"
    by code_simp
  from replay_reproduces [OF 1 2 3] 1 show ?thesis by simp
qed

text \<open>
  The claim as stated fails. A line as an exporter writes it and the same vertex
  written shortly are different texts with the same parse result: the mesh keeps the
  three numbers of a \<^verbatim>\<open>v\<close> line and nothing of its text. Whatever the writer emits
  for a tagged record, it emits the same for both, so it cannot reproduce both.
\<close>

theorem roundtrip_not_injective:
  "\<not> (\<exists>ep et en. round_trips ep et en exported_example \<and> round_trips ep et en short_example)"
proof
  assume "\<exists>ep et en. round_trips ep et en exported_example \<and> round_trips ep et en short_example"
  then obtain ep et en where a: "round_trips ep et en exported_example"
    and b: "round_trips ep et en short_example" by blast
  have same: "parse_obj_text exported_example = parse_obj_text short_example" by code_simp
  have "(case parse_obj_text short_example of Inl e \<Rightarrow> False | Inr obj \<Rightarrow> True)" by code_simp
  then obtain obj where p: "parse_obj_text short_example = Inr obj"
    by (cases "parse_obj_text short_example") auto
  from a b have "exported_example = short_example"
    by (simp add: round_trips_def same p)
  moreover have "exported_example \<noteq> short_example" by code_simp
  ultimately show False by simp
qed

subsection \<open>The program and the textures\<close>

text \<open>
  Claim C3, as the source has it. \<^verbatim>\<open>main\<close> parses the mesh and the library and stops:
  it bakes nothing and never opens or checks a texture. Whether a file exists at a
  path other than the mesh, the library and the output path (a diffuse map, say) has
  no influence on what a run prints and on how it ends, and no run writes a file.
\<close>

theorem textures_never_read:
  assumes "p \<noteq> obj_in a" and "p \<noteq> mtl_path_of a" and "p \<noteq> obj_out_of a"
  shows "fst (main a (w\<lparr>files_of := (files_of w)(p := c)\<rparr>)) = fst (main a w) \<and>
         fst (snd (main a (w\<lparr>files_of := (files_of w)(p := c)\<rparr>))) = fst (snd (main a w)) \<and>
         snd (snd (main a w)) = files_of w"
proof -
  let ?w = "w\<lparr>files_of := (files_of w)(p := c)\<rparr>"
  have o: "parse_obj (files_of ?w) (obj_in a) = parse_obj (files_of w) (obj_in a)"
    using assms(1) by (simp add: parse_obj_def open_read_def)
  have m: "parse_mtl (files_of ?w) (mtl_path_of a) = parse_mtl (files_of w) (mtl_path_of a)"
    using assms(2) by (simp add: parse_mtl_def open_read_def)
  have e: "files_of ?w (obj_out_of a) = files_of w (obj_out_of a)"
    using assms(3) by simp
  have k: "ask_overwrite ?w (obj_out_of a) = ask_overwrite w (obj_out_of a)"
    by (simp add: ask_overwrite_def)
  have 1: "fst (main a ?w) = fst (main a w)"
    unfolding main_def Let_def o m e k by (simp split: sum.splits)
  have 2: "fst (snd (main a ?w)) = fst (snd (main a w))"
    unfolding main_def Let_def o m e k by (simp split: sum.splits)
  have 3: "snd (snd (main a w)) = files_of w"
    unfolding main_def Let_def by (simp split: sum.splits)
  from 1 2 3 show ?thesis by simp
qed

theorem textures_never_read_witness:
  "''missing.png'' \<noteq> obj_in bake_args \<and> ''missing.png'' \<noteq> mtl_path_of bake_args \<and>
   ''missing.png'' \<noteq> obj_out_of bake_args \<and>
   fst (main bake_args (bake_world\<lparr>files_of := (files_of bake_world)(''missing.png'' := Some ''PNG'')\<rparr>)) =
     [Done_wrote ''m_baked.obj''] \<and>
   fst (snd (main bake_args (bake_world\<lparr>files_of := (files_of bake_world)(''missing.png'' := Some ''PNG'')\<rparr>))) =
     Inr ()"
proof -
  have 1: "''missing.png'' \<noteq> obj_in bake_args" by code_simp
  have 2: "''missing.png'' \<noteq> mtl_path_of bake_args" by code_simp
  have 3: "''missing.png'' \<noteq> obj_out_of bake_args" by code_simp
  have 4: "fst (main bake_args bake_world) = [Done_wrote ''m_baked.obj'']" by code_simp
  have 5: "fst (snd (main bake_args bake_world)) = Inr ()" by code_simp
  from textures_never_read [OF 1 2 3, of bake_world "Some ''PNG''"] 1 2 3 4 5
  show ?thesis by simp
qed

text \<open>
  The claim as stated fails. The face of the mesh uses the material A, the library
  gives A the diffuse map \<^verbatim>\<open>missing.png\<close>, and there is no such file: the run ends
  normally and reports that the baked mesh was written.
\<close>

theorem missing_texture_not_fatal:
  "map_sum id (\<lambda>obj. map material (faces obj)) (parse_obj (files_of bake_world) ''m.obj'') = Inr [''A''] \<and>
   map_sum id (\<lambda>mtl. map (\<lambda>m. (name m, map_Kd m)) (materials mtl))
     (parse_mtl (files_of bake_world) ''m.mtl'') = Inr [(''A'', Some ''missing.png'')] \<and>
   files_of bake_world ''missing.png'' = None \<and>
   fst (main bake_args bake_world) = [Done_wrote ''m_baked.obj''] \<and>
   fst (snd (main bake_args bake_world)) = Inr ()"
  by code_simp

subsection \<open>The two readers of a material library\<close>

lemma startswith_append: "startswith a p \<Longrightarrow> startswith (a @ b) p"
proof -
  assume "startswith a p"
  then have "a = p @ drop (length p) a"
    unfolding startswith_def by (metis append_take_drop_id)
  then have "a @ b = p @ (drop (length p) a @ b)" by (metis append_assoc)
  then have "take (length p) (a @ b) = p" by (metis append_eq_conv_conj)
  then show ?thesis by (simp add: startswith_def)
qed

lemma lower_append: "lower (a @ b) = lower a @ lower b"
  by (simp add: lower_def)

lemma hd_split1:
  "\<not> py_isspace c \<Longrightarrow> hd (split1 (c # cs)) = c # takeWhile (\<lambda>a. \<not> py_isspace a) cs"
  by (simp add: split1_Cons del: dropWhile_eq_Nil_conv)

lemma first_word_prefix:
  assumes "strip raw \<noteq> []" and "startswith (first_word raw) p"
  shows "startswith (lower (strip raw)) p"
proof -
  from assms(1) obtain c cs where s: "strip raw = c # cs" by (cases "strip raw") auto
  have c: "\<not> py_isspace c" using strip_ends(1) [of raw] s by simp
  define tok where "tok = c # takeWhile (\<lambda>a. \<not> py_isspace a) cs"
  define rest where "rest = dropWhile (\<lambda>a. \<not> py_isspace a) cs"
  have fw: "first_word raw = lower tok"
    by (simp only: first_word_def s hd_split1 [OF c] tok_def)
  have "c # cs = tok @ rest" by (simp add: tok_def rest_def)
  then have "lower (strip raw) = lower tok @ lower rest"
    by (simp only: s lower_append)
  with assms(2) fw show ?thesis by (simp only: startswith_append)
qed

lemma lower_hash: "lower_char (CHR ''#'') = CHR ''#''" by code_simp

lemma comment_not_key:
  assumes "strip raw = [] \<or> startswith (strip raw) ''#''"
  shows "\<not> startswith (lower (strip raw)) ''newmtl''" "\<not> startswith (lower (strip raw)) ''map_kd''"
  using assms by (auto simp: startswith_Cons lower_def lower_hash)

lemma diffuse_maps_out_lines [simp]:
  "diffuse_maps (mtl\<lparr>mtl_out_lines := x\<rparr>) = diffuse_maps mtl"
  by (simp add: diffuse_maps_def)

lemma readers_agree_out_lines [simp]:
  "readers_agree (mtl\<lparr>mtl_out_lines := x\<rparr>) st = readers_agree mtl st"
  by (simp add: readers_agree_def split: option.splits)

lemma map_of_diffuse_step:
  "map_of (diffuse_step d (k, Some v)) = (map_of d)(k \<mapsto> v)"
  by (simp add: diffuse_step_def update_conv')

lemma map_of_diffuse_step_overwritten:
  "(map_of (diffuse_step d (k, t)))(k \<mapsto> v) = (map_of d)(k \<mapsto> v)"
  by (cases t) (simp_all add: diffuse_step_def update_conv')

lemma set_field_keeps:
  assumes "\<And>m. name (f m) = name m \<and> map_Kd (f m) = map_Kd m"
  shows "map (\<lambda>m. (name m, map_Kd m)) (materials (set_field mtl i f)) =
           map (\<lambda>m. (name m, map_Kd m)) (materials mtl) \<and>
         mtl_current_material (set_field mtl i f) = mtl_current_material mtl"
proof -
  have "map (\<lambda>m. (name m, map_Kd m)) ((materials mtl)[i := f (materials mtl ! i)]) =
        (map (\<lambda>m. (name m, map_Kd m)) (materials mtl))[i := (name (materials mtl ! i), map_Kd (materials mtl ! i))]"
    by (simp add: map_update assms)
  also have "\<dots> = map (\<lambda>m. (name m, map_Kd m)) (materials mtl)"
  proof (cases "i < length (materials mtl)")
    case True
    then have "(name (materials mtl ! i), map_Kd (materials mtl ! i)) =
        map (\<lambda>m. (name m, map_Kd m)) (materials mtl) ! i" by simp
    then show ?thesis by (simp only: list_update_id)
  next
    case False
    then have "length (map (\<lambda>m. (name m, map_Kd m)) (materials mtl)) \<le> i" by simp
    then show ?thesis by (rule list_update_beyond)
  qed
  finally show ?thesis by (simp add: set_field_def)
qed

lemma property_update_other_aux:
  "key \<noteq> ''map_kd'' \<Longrightarrow>
   (case property_update key v of
      Inl e \<Rightarrow> True
    | Inr f \<Rightarrow> name (f m) = name m \<and> map_Kd (f m) = map_Kd m)"
  unfolding property_update_def
  by (simp add: sbind_def split: sum.splits)

lemma property_update_other:
  assumes "property_update key v = Inr f" and "key \<noteq> ''map_kd''"
  shows "name (f m) = name m \<and> map_Kd (f m) = map_Kd m"
  using property_update_other_aux [OF assms(2), where v = v and m = m] assms(1) by simp

lemma set_property_other:
  assumes "set_property mtl i key v = Inr mtl2" and "key \<noteq> ''map_kd''"
  shows "map (\<lambda>m. (name m, map_Kd m)) (materials mtl2) =
           map (\<lambda>m. (name m, map_Kd m)) (materials mtl) \<and>
         mtl_current_material mtl2 = mtl_current_material mtl"
proof -
  from assms(1) obtain f where f: "property_update key v = Inr f" and m: "mtl2 = set_field mtl i f"
    by (auto simp: set_property_def sbind_Inr_iff)
  show ?thesis
    unfolding m by (rule set_field_keeps) (rule property_update_other [OF f assms(2)])
qed

lemma set_property_map_kd:
  "set_property mtl i ''map_kd'' v = Inr (set_field mtl i (\<lambda>m. m\<lparr>map_Kd := Some v\<rparr>))"
  by (simp add: set_property_def property_update_def)

lemma diffuse_maps_snoc:
  "materials mtl' = ms @ [m] \<Longrightarrow> materials mtl = ms @ [m0] \<Longrightarrow> name m = name m0 \<Longrightarrow>
   map_Kd m = Some v \<Longrightarrow>
   map_of (diffuse_maps mtl') = (map_of (diffuse_maps mtl))(name m0 \<mapsto> v)"
  by (simp add: diffuse_maps_def map_of_diffuse_step map_of_diffuse_step_overwritten)

lemma diffuse_maps_new:
  "materials mtl' = materials mtl @ [new_Material v] \<Longrightarrow> diffuse_maps mtl' = diffuse_maps mtl"
  by (simp add: diffuse_maps_def diffuse_step_def new_Material_def)

lemma diffuse_maps_same:
  "map (\<lambda>m. (name m, map_Kd m)) (materials mtl') = map (\<lambda>m. (name m, map_Kd m)) (materials mtl) \<Longrightarrow>
   diffuse_maps mtl' = diffuse_maps mtl"
  by (simp add: diffuse_maps_def)

lemma last_names:
  assumes "map (\<lambda>m. (name m, map_Kd m)) ms' = map (\<lambda>m. (name m, map_Kd m)) ms" and "ms \<noteq> []"
  shows "ms' \<noteq> [] \<and> length ms' = length ms \<and> name (last ms') = name (last ms)"
proof -
  from assms(1) have l: "length ms' = length ms" by (metis length_map)
  with assms(2) have ne: "ms' \<noteq> []" by auto
  have "fst (last (map (\<lambda>m. (name m, map_Kd m)) ms')) = fst (last (map (\<lambda>m. (name m, map_Kd m)) ms))"
    by (simp only: assms(1))
  then have "name (last ms') = name (last ms)"
    using ne assms(2) by (simp add: last_map)
  with l ne show ?thesis by simp
qed

lemma readers_step:
  assumes inv: "readers_agree mtl st" and ek: "exact_keys raw"
    and pm: "parse_mtl_line mtl raw = Inr mtl'" and pf: "parse_mtl_file_line st raw = Inr st'"
  shows "readers_agree mtl' st'"
proof (cases "strip raw = [] \<or> startswith (strip raw) ''#''")
  case True
  from pm True have m: "mtl' = mtl\<lparr>mtl_out_lines := mtl_out_lines mtl @ [raw]\<rparr>"
    by (auto simp: parse_mtl_line_def)
  from pf comment_not_key [OF True] have "st' = st"
    by (simp add: parse_mtl_file_line_def Let_def)
  with inv m show ?thesis by simp
next
  case False
  then obtain c cs where s: "strip raw = c # cs" by (cases "strip raw") auto
  have c: "\<not> py_isspace c" using strip_ends(1) [of raw] s by simp
  have nh: "\<not> startswith (c # cs) ''#''" using False s by simp
  define tok where "tok = c # takeWhile (\<lambda>a. \<not> py_isspace a) cs"
  define r where "r = dropWhile py_isspace (dropWhile (\<lambda>a. \<not> py_isspace a) cs)"
  have sp: "split1 (c # cs) = (if r = [] then [tok] else [tok, r])"
    unfolding tok_def r_def by (rule split1_Cons [OF c])
  have fw: "first_word raw = lower tok"
    by (simp only: first_word_def s hd_split1 [OF c] tok_def)
  have r: "r \<noteq> []"
  proof
    assume "r = []"
    with pm nh show False by (simp add: parse_mtl_line_def s sp subscript_def Let_def)
  qed
  have pm': "(if lower tok = ''newmtl'' then
               Inr (mtl\<lparr>materials := materials mtl @ [new_Material r],
                        mtl_current_material := Some (length (materials mtl)),
                        mtl_out_lines := mtl_out_lines mtl @ [raw]\<rparr>)
             else (case mtl_current_material mtl of
                     Some i \<Rightarrow> sbind (set_property mtl i (lower tok) r) (\<lambda>mtl'.
                                 Inr (mtl'\<lparr>mtl_out_lines := mtl_out_lines mtl' @ [raw]\<rparr>))
                   | None \<Rightarrow> Inr (mtl\<lparr>mtl_out_lines := mtl_out_lines mtl @ [raw]\<rparr>))) = Inr mtl'"
    using pm nh r by (simp add: parse_mtl_line_def s sp subscript_def Let_def)
  have pf': "(if startswith (lower (c # cs)) ''newmtl'' then Inr (fst st, Some r)
             else if snd st \<noteq> None \<and> snd st \<noteq> Some [] \<and> startswith (lower (c # cs)) ''map_kd''
               then Inr (AList.update (the (snd st)) r (fst st), snd st)
               else Inr st) = (Inr st' :: error + (string \<times> string) list \<times> string option)"
  proof -
    have sub: "subscript (split1 (c # cs)) 1 = Inr r" using r by (simp add: sp subscript_def)
    have eq: "parse_mtl_file_line st raw =
        (if startswith (lower (c # cs)) ''newmtl'' then Inr (fst st, Some r)
         else if snd st \<noteq> None \<and> snd st \<noteq> Some [] \<and> startswith (lower (c # cs)) ''map_kd''
           then Inr (AList.update (the (snd st)) r (fst st), snd st)
           else Inr st)"
      unfolding parse_mtl_file_line_def Let_def s sub by simp
    show ?thesis using pf unfolding eq .
  qed
  have pre: "startswith (lower tok) p \<Longrightarrow> startswith (lower (c # cs)) p" for p
    using first_word_prefix [of raw p] s fw by simp
  have ex1: "startswith (lower (c # cs)) ''newmtl'' \<Longrightarrow> lower tok = ''newmtl''"
    using ek by (simp add: exact_keys_def s fw)
  have ex2: "startswith (lower (c # cs)) ''map_kd'' \<Longrightarrow> lower tok = ''map_kd''"
    using ek by (simp add: exact_keys_def s fw)
  show ?thesis
  proof (cases "lower tok = ''newmtl''")
    case True
    then have "startswith (lower (c # cs)) ''newmtl''"
      using pre [of "''newmtl''"] by (simp add: startswith_def)
    with pf' have st': "st' = (fst st, Some r)" by simp
    from pm' True have m: "mtl' = mtl\<lparr>materials := materials mtl @ [new_Material r],
                        mtl_current_material := Some (length (materials mtl)),
                        mtl_out_lines := mtl_out_lines mtl @ [raw]\<rparr>" by simp
    have "diffuse_maps mtl' = diffuse_maps mtl"
      by (rule diffuse_maps_new) (simp add: m)
    with inv show ?thesis
      by (simp add: readers_agree_def st' m r new_Material_def)
  next
    case nn: False
    then have n1: "\<not> startswith (lower (c # cs)) ''newmtl''" using ex1 by blast
    show ?thesis
    proof (cases "mtl_current_material mtl")
      case None
      with pm' nn have m: "mtl' = mtl\<lparr>mtl_out_lines := mtl_out_lines mtl @ [raw]\<rparr>" by simp
      from inv None have "snd st = None" by (simp add: readers_agree_def)
      with pf' n1 have "st' = st" by simp
      with inv m show ?thesis by simp
    next
      case (Some i)
      with pm' nn obtain mtl2 where sp2: "set_property mtl i (lower tok) r = Inr mtl2"
        and m: "mtl' = mtl2\<lparr>mtl_out_lines := mtl_out_lines mtl2 @ [raw]\<rparr>"
        by (auto simp: sbind_Inr_iff)
      from inv Some have ne: "materials mtl \<noteq> []" and i: "i = length (materials mtl) - 1"
        and cur: "snd st = Some (name (last (materials mtl)))"
        and nm: "name (last (materials mtl)) \<noteq> []"
        and d: "map_of (fst st) = map_of (diffuse_maps mtl)"
        by (simp_all add: readers_agree_def)
      show ?thesis
      proof (cases "lower tok = ''map_kd''")
        case True
        then have "startswith (lower (c # cs)) ''map_kd''"
          using pre [of "''map_kd''"] by (simp add: startswith_def)
        with pf' n1 cur nm have st': "st' = (AList.update (name (last (materials mtl))) r (fst st), snd st)"
          by simp
        from sp2 True have m2: "mtl2 = set_field mtl i (\<lambda>m. m\<lparr>map_Kd := Some r\<rparr>)"
          by (simp add: set_property_map_kd)
        define ms where "ms = butlast (materials mtl)"
        define m0 where "m0 = last (materials mtl)"
        have old: "materials mtl = ms @ [m0]" using ne by (simp add: ms_def m0_def)
        have len: "i = length ms" using i old by simp
        have new: "materials mtl2 = ms @ [m0\<lparr>map_Kd := Some r\<rparr>]"
          by (simp add: m2 set_field_def old len)
        have cm: "mtl_current_material mtl2 = Some i" by (simp add: m2 set_field_def Some)
        have "map_of (diffuse_maps mtl2) = (map_of (diffuse_maps mtl))(name m0 \<mapsto> r)"
          by (rule diffuse_maps_snoc [OF new old]) simp_all
        then have "map_of (fst st') = map_of (diffuse_maps mtl2)"
          by (simp add: st' update_conv' d m0_def)
        then show ?thesis
          using cur nm by (simp add: readers_agree_def m cm new len st' m0_def)
      next
        case False
        then have n2: "\<not> startswith (lower (c # cs)) ''map_kd''" using ex2 by blast
        with pf' n1 have st': "st' = st" by simp
        from set_property_other [OF sp2 False]
        have same: "map (\<lambda>m. (name m, map_Kd m)) (materials mtl2) = map (\<lambda>m. (name m, map_Kd m)) (materials mtl)"
          and cm: "mtl_current_material mtl2 = mtl_current_material mtl" by simp_all
        from last_names [OF same ne]
        have l: "materials mtl2 \<noteq> []" "length (materials mtl2) = length (materials mtl)"
          "name (last (materials mtl2)) = name (last (materials mtl))" by simp_all
        have "diffuse_maps mtl2 = diffuse_maps mtl" using same by (rule diffuse_maps_same)
        then show ?thesis
          using d cur nm i by (simp add: readers_agree_def m cm Some l st')
      qed
    qed
  qed
qed

lemma readers_loop:
  assumes "readers_agree mtl st" and "\<forall>raw \<in> set ls. exact_keys raw"
    and "parse_mtl_lines mtl ls = Inr mtl'" and "parse_mtl_file_lines st ls = Inr st'"
  shows "readers_agree mtl' st'"
  using assms
proof (induction ls arbitrary: mtl st)
  case Nil
  then show ?case by simp
next
  case (Cons raw rest)
  from Cons.prems(3) obtain mtl1 where m1: "parse_mtl_line mtl raw = Inr mtl1"
    and m2: "parse_mtl_lines mtl1 rest = Inr mtl'"
    by (auto split: sum.splits)
  from Cons.prems(4) obtain st1 where s1: "parse_mtl_file_line st raw = Inr st1"
    and s2: "parse_mtl_file_lines st1 rest = Inr st'"
    by (auto split: sum.splits)
  from Cons.prems(2) have k: "exact_keys raw" and ks: "\<forall>raw \<in> set rest. exact_keys raw"
    by simp_all
  have "readers_agree mtl1 st1"
    using Cons.prems(1) k m1 s1 by (rule readers_step)
  then show ?case using ks m2 s2 by (rule Cons.IH)
qed

text \<open>
  Claim C9, as the source has it. On a material library on which both readers succeed,
  and in which every line whose trimmed, lower-cased form starts with \<^verbatim>\<open>newmtl\<close> or
  \<^verbatim>\<open>map_kd\<close> has exactly that word as its first word, the dictionary of
  \<^verbatim>\<open>parse_mtl_file\<close> is the mapping from the materials of \<^verbatim>\<open>parse_mtl\<close> to
  their \<^verbatim>\<open>map_Kd\<close> (a later material of the same name wins, a material without
  \<^verbatim>\<open>map_Kd\<close> adds nothing).
\<close>

theorem mtl_readers_agree:
  assumes "parse_mtl_text content = Inr mtl" and "parse_mtl_file_text content = Inr d"
    and "\<forall>raw \<in> set (file_lines content). exact_keys raw"
  shows "map_of d = map_of (diffuse_maps mtl)"
proof -
  from assms(2) obtain st where st: "parse_mtl_file_lines ([], None) (file_lines content) = Inr st"
    and d: "d = fst st"
    by (auto simp: parse_mtl_file_text_def sbind_Inr_iff)
  have "readers_agree new_MTL ([], None)"
    by (simp add: readers_agree_def new_MTL_def diffuse_maps_def)
  from readers_loop [OF this assms(3) assms(1) [unfolded parse_mtl_text_def] st]
  show ?thesis by (simp add: readers_agree_def d)
qed

theorem mtl_readers_agree_witness:
  "(case parse_mtl_text agreeing_example of
      Inl e \<Rightarrow> False
    | Inr mtl \<Rightarrow>
        parse_mtl_file_text agreeing_example = Inr [(''A'', ''c.png'')] \<and>
        map_of [(''A'', ''c.png'')] = map_of (diffuse_maps mtl))"
proof -
  have "(case parse_mtl_text agreeing_example of Inl e \<Rightarrow> False | Inr mtl \<Rightarrow> True)"
    by code_simp
  then obtain mtl where 1: "parse_mtl_text agreeing_example = Inr mtl"
    by (cases "parse_mtl_text agreeing_example") auto
  have 2: "parse_mtl_file_text agreeing_example = Inr [(''A'', ''c.png'')]" by code_simp
  have 3: "\<forall>raw \<in> set (file_lines agreeing_example). exact_keys raw" by code_simp
  from mtl_readers_agree [OF 1 2 3] 1 2 show ?thesis by simp
qed

text \<open>
  The claim as stated fails. \<^verbatim>\<open>parse_mtl_file\<close> takes every line that starts with
  \<^verbatim>\<open>map_kd\<close> for a diffuse map, \<^verbatim>\<open>parse_mtl\<close> only a line whose first word is
  \<^verbatim>\<open>map_kd\<close>: on \<^verbatim>\<open>map_Kd_old a.png\<close> under \<^verbatim>\<open>newmtl A\<close> both succeed, the
  first returns the texture for A, and the material A of the second has no diffuse map.
\<close>

theorem mtl_readers_differ:
  "parse_mtl_file_text renamed_key_example = Inr [(''A'', ''a.png'')] \<and>
   map_sum id (\<lambda>mtl. map (\<lambda>m. (name m, map_Kd m, extra_props m)) (materials mtl))
     (parse_mtl_text renamed_key_example) = Inr [(''A'', None, [(''map_kd_old'', ''a.png'')])] \<and>
   map_sum id diffuse_maps (parse_mtl_text renamed_key_example) = Inr []"
  by code_simp

subsection \<open>The texture sampler\<close>




lemma pow2_nat: "pow2 (int n) = 2 ^ n"
  by (simp add: pow2_def)




























end
